theory Spec2Isabelle
  imports Main "HOL-Library.Multiset" "HOL-Library.List_Lexorder" "HOL-Library.Char_ord"
begin

section \<open>Data model\<close>

text \<open>
  The tables of the primary store (shared schema) and of the SQLite mirror, the archive
  reader's view of an uploaded file, and the world the server code runs in. Serial row ids
  and creation timestamps are left out: a table is the list of its rows in insertion order.
  The \<open>tags\<close> column holds the text \<open>JSON.stringify(tags)\<close> and is read back with
  \<open>JSON.parse\<close>; the model stores the tag list that this text denotes.
\<close>

datatype error = Error string

record tag =
  tag_key :: string
  tag_value :: string

record presentation_row =
  p_id :: string
  p_name :: string
  p_submitted :: bool

record slide_row =
  s_presentation_id :: string
  s_slide_id :: string
  s_slide_number :: int
  s_image :: string

record annotation_row =
  a_presentation_id :: string
  a_slide_id :: string
  a_tags :: "tag list"

record input_row =
  i_presentation_id :: string
  i_name :: string
  i_slide_id :: string
  i_slide_number :: int
  i_image :: string

record output_row =
  o_presentation_id :: string
  o_slide_id :: string
  o_tags :: "tag list"

text \<open>
  Strings are lists of characters, a character standing for a code unit below 256; the
  text of an archive entry is identified with its bytes. An archive entry has a name and
  its data, \<open>None\<close> when reading the entry throws (corrupt entry). A file has its
  bytes and what the archive reader makes of them: the entries, or \<open>None\<close> when the
  reader cannot open the file as an archive.
\<close>

record zipEntry =
  entryName :: string
  entryData :: "string option"

record diskFile =
  fileBytes :: string
  fileZip :: "zipEntry list option"

type_synonym files = "(string \<times> diskFile) list"

text \<open>
  The world: the five tables, the outcome of each forthcoming statement on the primary
  store (\<open>True\<close> succeeds; once the script is used up every statement succeeds), the
  number of identifiers drawn from \<open>uuidv4\<close>, the files and directories on disk, the
  working directory, and the external tools: what a command line does to the files,
  \<open>None\<close> when the command fails or is not installed.
\<close>

record world =
  presentationsT :: "presentation_row list"
  slidesT :: "slide_row list"
  annotationsT :: "annotation_row list"
  sqliteInput :: "input_row list"
  sqliteOutput :: "output_row list"
  dbScript :: "bool list"
  uuidCounter :: nat
  fsFiles :: files
  fsDirs :: "string list"
  cwd :: string
  shell :: "string \<Rightarrow> files \<Rightarrow> files option"

section \<open>Effects: state passing with exceptions\<close>

type_synonym 'a io = "world \<Rightarrow> (error + 'a) \<times> world"

definition io_return :: "'a \<Rightarrow> 'a io" where
  "io_return x w = (Inr x, w)"

definition io_throw :: "error \<Rightarrow> 'a io" where
  "io_throw e w = (Inl e, w)"

definition io_bind :: "'a io \<Rightarrow> ('a \<Rightarrow> 'b io) \<Rightarrow> 'b io" where
  "io_bind m f w = (case m w of (Inl e, w') \<Rightarrow> (Inl e, w') | (Inr x, w') \<Rightarrow> f x w')"

definition io_try :: "'a io \<Rightarrow> (error \<Rightarrow> 'a io) \<Rightarrow> 'a io" where
  "io_try m h w = (case m w of (Inl e, w') \<Rightarrow> h e w' | (Inr x, w') \<Rightarrow> (Inr x, w'))"

text \<open>One statement on the primary store: it throws when the script says so.\<close>

definition dbStatement :: "(world \<Rightarrow> 'a \<times> world) \<Rightarrow> 'a io" where
  "dbStatement f w =
     (case dbScript w of
        [] \<Rightarrow> (case f w of (x, w') \<Rightarrow> (Inr x, w'))
      | ok # rest \<Rightarrow>
          if ok then (case f (w\<lparr>dbScript := rest\<rparr>) of (x, w') \<Rightarrow> (Inr x, w'))
          else (Inl (Error ''database error''), w\<lparr>dbScript := rest\<rparr>))"

text \<open>Decimal rendering of a number, as a template literal prints an integer.\<close>

definition digitChar :: "nat \<Rightarrow> char" where
  "digitChar d = char_of (of_char (CHR ''0'') + d)"

fun natToString :: "nat \<Rightarrow> string" where
  "natToString n = (if n < 10 then [digitChar n] else natToString (n div 10) @ [digitChar (n mod 10)])"

declare natToString.simps [simp del]

definition numberToString :: "int \<Rightarrow> string" where
  "numberToString i = (if i < 0 then CHR ''-'' # natToString (nat (- i)) else natToString (nat i))"

text \<open>\<open>uuidv4()\<close>: a fresh identifier at each call.\<close>

definition uuidv4 :: "string io" where
  "uuidv4 w = (Inr (''uuid-'' @ natToString (uuidCounter w)), w\<lparr>uuidCounter := Suc (uuidCounter w)\<rparr>)"

section \<open>Strings as the JavaScript built-ins treat them\<close>

text \<open>
  Slide numbers and counts are whole numbers in the source and integers here. What
  \<open>parseInt\<close> returns is a double: a \<open>number\<close> below is a double with an integer
  value (the two zeros, which every comparison takes for equal, are one) or one of the two
  infinities, ordered as the doubles are; NaN is the failure of \<open>parseInt\<close>, an
  \<open>option\<close> here.
\<close>

datatype number = NegInfinity | Finite int | Infinity

instantiation number :: linorder
begin

definition less_eq_number :: "number \<Rightarrow> number \<Rightarrow> bool" where
  "a \<le> b =
     (case a of
        NegInfinity \<Rightarrow> True
      | Finite x \<Rightarrow> (case b of NegInfinity \<Rightarrow> False | Finite y \<Rightarrow> x \<le> y | Infinity \<Rightarrow> True)
      | Infinity \<Rightarrow> (case b of NegInfinity \<Rightarrow> False | Finite y \<Rightarrow> False | Infinity \<Rightarrow> True))"

definition less_number :: "number \<Rightarrow> number \<Rightarrow> bool" where
  "a < b = (a \<le> b \<and> \<not> b \<le> (a :: number))"

instance
  by standard (auto simp: less_eq_number_def less_number_def split: number.splits)

end

text \<open>
  The double nearest to an integer, ties to the even significand: an integer of at most 53
  bits is a double; a longer one keeps its 53 leading bits, rounded by the bits dropped.
  A double has at most 1024 bits: a longer result is an infinity.
\<close>

fun bitLength :: "nat \<Rightarrow> nat" where
  "bitLength n = (if n = 0 then 0 else Suc (bitLength (n div 2)))"

declare bitLength.simps [simp del]

definition roundToDouble :: "nat \<Rightarrow> nat" where
  "roundToDouble n =
     (if bitLength n \<le> 53 then n
      else (let s = bitLength n - 53; q = n div 2 ^ s; r = n mod 2 ^ s; h = 2 ^ (s - 1)
            in (if h < r \<or> (r = h \<and> odd q) then q + 1 else q) * 2 ^ s))"

definition toNumber :: "int \<Rightarrow> number" where
  "toNumber v =
     (if 1024 < bitLength (roundToDouble (nat \<bar>v\<bar>)) then (if v < 0 then NegInfinity else Infinity)
      else Finite (if v < 0 then - int (roundToDouble (nat \<bar>v\<bar>)) else int (roundToDouble (nat \<bar>v\<bar>))))"

definition startsWith :: "string \<Rightarrow> string \<Rightarrow> bool" where
  "startsWith p s = (take (length p) s = p)"

definition endsWith :: "string \<Rightarrow> string \<Rightarrow> bool" where
  "endsWith p s = (length p \<le> length s \<and> drop (length s - length p) s = p)"

definition lowerChar :: "char \<Rightarrow> char" where
  "lowerChar c = (if CHR ''A'' \<le> c \<and> c \<le> CHR ''Z'' then char_of (of_char c + (32::nat)) else c)"

definition toLowerCase :: "string \<Rightarrow> string" where
  "toLowerCase s = map lowerChar s"

definition isDigit :: "char \<Rightarrow> bool" where
  "isDigit c = (CHR ''0'' \<le> c \<and> c \<le> CHR ''9'')"

definition isWhiteSpace :: "char \<Rightarrow> bool" where
  "isWhiteSpace c = (c \<in> set [CHR 0x09, CHR 0x0A, CHR 0x0B, CHR 0x0C, CHR 0x0D, CHR 0x20, CHR 0xA0])"

definition isLineTerminator :: "char \<Rightarrow> bool" where
  "isLineTerminator c = (c = CHR 0x0A \<or> c = CHR 0x0D)"

definition trim :: "string \<Rightarrow> string" where
  "trim s = rev (dropWhile isWhiteSpace (rev (dropWhile isWhiteSpace s)))"

definition digitValue :: "char \<Rightarrow> nat" where
  "digitValue c = of_char c - of_char (CHR ''0'')"

definition digitsToNat :: "string \<Rightarrow> nat" where
  "digitsToNat ds = foldl (\<lambda>acc c. 10 * acc + digitValue c) 0 ds"

definition hexValue :: "char \<Rightarrow> nat option" where
  "hexValue c =
     (if isDigit c then Some (digitValue c)
      else if CHR ''a'' \<le> c \<and> c \<le> CHR ''f'' then Some (of_char c - of_char (CHR ''a'') + 10)
      else if CHR ''A'' \<le> c \<and> c \<le> CHR ''F'' then Some (of_char c - of_char (CHR ''A'') + 10)
      else None)"

text \<open>
  \<open>parseInt(s)\<close> with no radix: leading white space, a sign, a \<open>0x\<close> prefix, then the
  longest run of digits of the radix; \<open>None\<close> is NaN. The result is the double
  nearest to the integer the digits denote, as Node computes it.
\<close>

definition parseInt :: "string \<Rightarrow> number option" where
  "parseInt s =
     (let s1 = dropWhile isWhiteSpace s;
          negative = startsWith ''-'' s1;
          s2 = (if startsWith ''-'' s1 \<or> startsWith ''+'' s1 then drop 1 s1 else s1);
          hex = (startsWith ''0x'' s2 \<or> startsWith ''0X'' s2);
          s3 = (if hex then drop 2 s2 else s2);
          ds = (if hex then takeWhile (\<lambda>c. hexValue c \<noteq> None) s3 else takeWhile isDigit s3);
          v = (if hex then foldl (\<lambda>acc c. 16 * acc + the (hexValue c)) 0 ds else digitsToNat ds)
      in if ds = [] then None else Some (toNumber (if negative then - int v else int v)))"

text \<open>
  The regular expressions of the form \<open>/PRE(\d+)POST/\<close>, where \<open>POST\<close> does not start
  with a digit: at a position, the literal \<open>PRE\<close>, the longest non-empty run of digits,
  the literal \<open>POST\<close>; the capture is the run. \<open>matchDigits\<close> is \<open>String.match\<close>
  without the \<open>g\<close> flag (leftmost match), \<open>matchAllDigits\<close> the successive matches of a
  global expression.
\<close>

definition matchDigitsHere :: "string \<Rightarrow> string \<Rightarrow> string \<Rightarrow> string option" where
  "matchDigitsHere pre post s =
     (if startsWith pre s \<and> takeWhile isDigit (drop (length pre) s) \<noteq> []
         \<and> startsWith post (dropWhile isDigit (drop (length pre) s))
      then Some (takeWhile isDigit (drop (length pre) s)) else None)"

fun matchDigits :: "string \<Rightarrow> string \<Rightarrow> string \<Rightarrow> string option" where
  "matchDigits pre post [] = matchDigitsHere pre post []"
| "matchDigits pre post (c # cs) =
     (case matchDigitsHere pre post (c # cs) of
        Some ds \<Rightarrow> Some ds
      | None \<Rightarrow> matchDigits pre post cs)"

fun matchAllDigits :: "string \<Rightarrow> string \<Rightarrow> string \<Rightarrow> string list" where
  "matchAllDigits pre post [] = []"
| "matchAllDigits pre post (c # cs) =
     (case matchDigitsHere pre post (c # cs) of
        Some ds \<Rightarrow> ds # matchAllDigits pre post (drop (length pre + length ds + length post - 1) cs)
      | None \<Rightarrow> matchAllDigits pre post cs)"

text \<open>The number of successive matches of a literal, as \<open>s.match(/lit/g)\<close> finds them.\<close>

fun countMatches :: "string \<Rightarrow> string \<Rightarrow> nat" where
  "countMatches pat [] = 0"
| "countMatches pat (c # cs) =
     (if startsWith pat (c # cs) then Suc (countMatches pat (drop (length pat - 1) cs))
      else countMatches pat cs)"

text \<open>\<open>s.replace(/lit/, rep)\<close>: the first occurrence of the literal is replaced.\<close>

fun replaceFirst :: "string \<Rightarrow> string \<Rightarrow> string \<Rightarrow> string" where
  "replaceFirst pat rep [] = (if pat = [] then rep else [])"
| "replaceFirst pat rep (c # cs) =
     (if startsWith pat (c # cs) then rep @ drop (length pat) (c # cs)
      else c # replaceFirst pat rep cs)"

text \<open>\<open>Buffer.from(s)\<close> (UTF-8) and \<open>buffer.toString('base64')\<close>.\<close>

definition utf8 :: "string \<Rightarrow> string" where
  "utf8 s = concat (map (\<lambda>c. if (of_char c :: nat) < 128 then [c]
                               else [char_of (192 + (of_char c :: nat) div 64), char_of (128 + (of_char c :: nat) mod 64)]) s)"

definition base64Alphabet :: string where
  "base64Alphabet = ''ABCDEFGHIJKLMNOPQRSTUVWXYZabcdefghijklmnopqrstuvwxyz0123456789+/''"

definition base64Char :: "nat \<Rightarrow> char" where
  "base64Char n = base64Alphabet ! (n mod 64)"

fun toBase64 :: "string \<Rightarrow> string" where
  "toBase64 [] = []"
| "toBase64 [a] =
     (let n = of_char a * 65536 in
      [base64Char (n div 262144), base64Char (n div 4096), CHR ''='', CHR ''=''])"
| "toBase64 [a, b] =
     (let n = of_char a * 65536 + of_char b * 256 in
      [base64Char (n div 262144), base64Char (n div 4096), base64Char (n div 64), CHR ''=''])"
| "toBase64 (a # b # c # rest) =
     (let n = of_char a * 65536 + of_char b * 256 + of_char c in
      [base64Char (n div 262144), base64Char (n div 4096), base64Char (n div 64), base64Char n])
     @ toBase64 rest"

section \<open>storage.ts and the SQLite mirror\<close>

definition find_first :: "('a \<Rightarrow> bool) \<Rightarrow> 'a list \<Rightarrow> 'a option" where
  "find_first P xs = (case filter P xs of [] \<Rightarrow> None | x # _ \<Rightarrow> Some x)"

definition sqlite_insertSlide :: "string \<Rightarrow> string \<Rightarrow> string \<Rightarrow> int \<Rightarrow> string \<Rightarrow> unit io" where
  "sqlite_insertSlide presentationId name slideId slideNumber img w =
     (Inr (), w\<lparr>sqliteInput := sqliteInput w @
        [\<lparr>i_presentation_id = presentationId, i_name = name, i_slide_id = slideId,
          i_slide_number = slideNumber, i_image = (if img = [] then ''BLOB'' else img)\<rparr>]\<rparr>)"

definition sqlite_insertAnnotations :: "string \<Rightarrow> string \<Rightarrow> tag list \<Rightarrow> unit io" where
  "sqlite_insertAnnotations presentationId slideId tags w =
     (let hit = (\<lambda>r. o_presentation_id r = presentationId \<and> o_slide_id r = slideId) in
      case find_first hit (sqliteOutput w) of
        Some existing \<Rightarrow>
          (Inr (), w\<lparr>sqliteOutput := map (\<lambda>r. if hit r then r\<lparr>o_tags := tags\<rparr> else r) (sqliteOutput w)\<rparr>)
      | None \<Rightarrow>
          (Inr (), w\<lparr>sqliteOutput := sqliteOutput w @
             [\<lparr>o_presentation_id = presentationId, o_slide_id = slideId, o_tags = tags\<rparr>]\<rparr>))"

definition createPresentation :: "string \<Rightarrow> string io" where
  "createPresentation name =
     io_bind uuidv4 (\<lambda>presentationId.
     io_bind (dbStatement (\<lambda>w. ((), w\<lparr>presentationsT := presentationsT w @
                [\<lparr>p_id = presentationId, p_name = name, p_submitted = False\<rparr>]\<rparr>))) (\<lambda>_.
     io_return presentationId))"

definition getPresentation :: "string \<Rightarrow> presentation_row option io" where
  "getPresentation ident = dbStatement (\<lambda>w. (find_first (\<lambda>p. p_id p = ident) (presentationsT w), w))"

definition saveSlide :: "string \<Rightarrow> int \<Rightarrow> string \<Rightarrow> string \<Rightarrow> unit io" where
  "saveSlide presentationId slideNumber slideId imageBase64 =
     io_bind (dbStatement (\<lambda>w. ((), w\<lparr>slidesT := slidesT w @
                [\<lparr>s_presentation_id = presentationId, s_slide_id = slideId,
                  s_slide_number = slideNumber, s_image = imageBase64\<rparr>]\<rparr>))) (\<lambda>_.
     io_try
       (io_bind (getPresentation presentationId) (\<lambda>presentation.
          case presentation of
            Some p \<Rightarrow> sqlite_insertSlide presentationId (p_name p) slideId slideNumber imageBase64
          | None \<Rightarrow> io_return ()))
       (\<lambda>err. io_return ()))"

definition getSlides :: "string \<Rightarrow> slide_row list io" where
  "getSlides presentationId =
     dbStatement (\<lambda>w. (sort_key s_slide_number (filter (\<lambda>s. s_presentation_id s = presentationId) (slidesT w)), w))"

definition getSlide :: "string \<Rightarrow> slide_row option io" where
  "getSlide slideId = dbStatement (\<lambda>w. (find_first (\<lambda>s. s_slide_id s = slideId) (slidesT w), w))"

definition saveAnnotations :: "string \<Rightarrow> tag list \<Rightarrow> unit io" where
  "saveAnnotations slideId tags =
     io_bind (dbStatement (\<lambda>w. ((), w\<lparr>annotationsT := filter (\<lambda>a. a_slide_id a \<noteq> slideId) (annotationsT w)\<rparr>))) (\<lambda>_.
     if length tags > 0 then
       io_bind (getSlide slideId) (\<lambda>slide.
         case slide of
           None \<Rightarrow> io_throw (Error ''Slide not found'')
         | Some sl \<Rightarrow>
             io_bind (dbStatement (\<lambda>w. ((), w\<lparr>annotationsT := annotationsT w @
                        [\<lparr>a_presentation_id = s_presentation_id sl, a_slide_id = slideId, a_tags = tags\<rparr>]\<rparr>))) (\<lambda>_.
             io_try (sqlite_insertAnnotations (s_presentation_id sl) slideId tags)
                    (\<lambda>err. io_return ())))
     else io_return ())"

text \<open>
  The result object of \<open>getAnnotations\<close>: each row assigns its slide's key, a later row
  of the same slide overwriting an earlier one.
\<close>

definition getAnnotations :: "string \<Rightarrow> (string \<rightharpoonup> tag list) io" where
  "getAnnotations presentationId =
     io_bind (dbStatement (\<lambda>w. (filter (\<lambda>a. a_presentation_id a = presentationId) (annotationsT w), w))) (\<lambda>annotations.
     io_return (foldl (\<lambda>result annotation. result(a_slide_id annotation \<mapsto> a_tags annotation)) Map.empty annotations))"

definition submitPresentation :: "string \<Rightarrow> unit io" where
  "submitPresentation presentationId =
     dbStatement (\<lambda>w. ((), w\<lparr>presentationsT :=
        map (\<lambda>p. if p_id p = presentationId then p\<lparr>p_submitted := True\<rparr> else p) (presentationsT w)\<rparr>))"

section \<open>The file system, the external tools and the archive reader\<close>

definition pathJoin :: "string \<Rightarrow> string \<Rightarrow> string" where
  "pathJoin a b = a @ ''/'' @ b"

definition existsSync :: "string \<Rightarrow> bool io" where
  "existsSync p w = (Inr (p \<in> set (fsDirs w) \<or> map_of (fsFiles w) p \<noteq> None), w)"

definition mkdirSync :: "string \<Rightarrow> unit io" where
  "mkdirSync p w = (Inr (), w\<lparr>fsDirs := p # fsDirs w\<rparr>)"

definition readdirSync :: "string \<Rightarrow> string list io" where
  "readdirSync dir w =
     (if dir \<in> set (fsDirs w)
      then (Inr (map (drop (length dir + 1))
                  (filter (\<lambda>p. startsWith (dir @ ''/'') p \<and> CHR ''/'' \<notin> set (drop (length dir + 1) p))
                     (map fst (fsFiles w)))), w)
      else (Inl (Error ''ENOENT: no such file or directory''), w))"

definition readFileSync :: "string \<Rightarrow> string io" where
  "readFileSync p w =
     (case map_of (fsFiles w) p of
        None \<Rightarrow> (Inl (Error ''ENOENT: no such file or directory''), w)
      | Some f \<Rightarrow> (Inr (fileBytes f), w))"

definition unlinkSync :: "string \<Rightarrow> unit io" where
  "unlinkSync p w =
     (case map_of (fsFiles w) p of
        None \<Rightarrow> (Inl (Error ''ENOENT: no such file or directory''), w)
      | Some f \<Rightarrow> (Inr (), w\<lparr>fsFiles := filter (\<lambda>e. fst e \<noteq> p) (fsFiles w)\<rparr>))"

definition renameSync :: "string \<Rightarrow> string \<Rightarrow> unit io" where
  "renameSync old new w =
     (case map_of (fsFiles w) old of
        None \<Rightarrow> (Inl (Error ''ENOENT: no such file or directory''), w)
      | Some f \<Rightarrow> (Inr (), w\<lparr>fsFiles := filter (\<lambda>e. fst e \<noteq> old \<and> fst e \<noteq> new) (fsFiles w) @ [(new, f)]\<rparr>))"

definition execPromise :: "string \<Rightarrow> unit io" where
  "execPromise cmd w =
     (case shell w cmd (fsFiles w) of
        None \<Rightarrow> (Inl (Error ''Command failed''), w)
      | Some fs \<Rightarrow> (Inr (), w\<lparr>fsFiles := fs\<rparr>))"

definition getCwd :: "string io" where
  "getCwd w = (Inr (cwd w), w)"

text \<open>\<open>new AdmZip(filePath)\<close> throws on a missing file and on one that is no archive.\<close>

definition AdmZip :: "string \<Rightarrow> zipEntry list io" where
  "AdmZip filePath w =
     (case map_of (fsFiles w) filePath of
        None \<Rightarrow> (Inl (Error ''Invalid filename''), w)
      | Some f \<Rightarrow>
          (case fileZip f of
             None \<Rightarrow> (Inl (Error ''Invalid or unsupported zip format''), w)
           | Some entries \<Rightarrow> (Inr entries, w)))"

definition getEntry :: "zipEntry list \<Rightarrow> string \<Rightarrow> zipEntry option" where
  "getEntry zipArchive name = find_first (\<lambda>e. entryName e = name) zipArchive"

definition getData :: "zipEntry \<Rightarrow> string io" where
  "getData e = (case entryData e of None \<Rightarrow> io_throw (Error ''Invalid entry data'') | Some d \<Rightarrow> io_return d)"

definition readAsText :: "zipEntry list \<Rightarrow> string \<Rightarrow> string io" where
  "readAsText zipArchive name =
     (case getEntry zipArchive name of
        None \<Rightarrow> io_return []
      | Some e \<Rightarrow> getData e)"

section \<open>presentationService.ts: slide count, placeholders, text extraction\<close>

text \<open>\<open>entry.entryName.match(/ppt\/slides\/slide[0-9]+\.xml/) !== null\<close>\<close>

definition isSlideXml :: "string \<Rightarrow> bool" where
  "isSlideXml name = (matchDigits ''ppt/slides/slide'' ''.xml'' name \<noteq> None)"

definition getSlideCount :: "string \<Rightarrow> int io" where
  "getSlideCount filePath =
     (if \<not> endsWith ''.pptx'' (toLowerCase filePath) then io_return 10
      else
        io_try
          (io_bind (AdmZip filePath) (\<lambda>zip.
             let slideEntries = filter (\<lambda>entry. entryName entry \<noteq> [] \<and> isSlideXml (entryName entry)) zip in
             if length slideEntries > 0 then io_return (int (length slideEntries))
             else
               (case getEntry zip ''ppt/presentation.xml'' of
                  Some presentationEntry \<Rightarrow>
                    io_bind (readAsText zip ''ppt/presentation.xml'') (\<lambda>content.
                      let sldIdMatches = countMatches ''<p:sldId'' content in
                      if sldIdMatches > 0 then io_return (int sldIdMatches) else io_return 10)
                | None \<Rightarrow> io_return 10)))
          (\<lambda>err. io_return 10))"

definition newline :: string where
  "newline = [CHR 0x0A]"

definition createPlaceholderImage :: "int \<Rightarrow> int \<Rightarrow> string" where
  \<open>createPlaceholderImage slideNumber totalSlides =
     (let svgImage =
      ''<?xml version="1.0" encoding="UTF-8" standalone="no"?>'' @ newline @
      ''  <svg width="800" height="600" xmlns="http://www.w3.org/2000/svg">'' @ newline @
      ''    <!-- Background with gradient -->'' @ newline @
      ''    <defs>'' @ newline @
      ''      <linearGradient id="slideGradient" x1="0%" y1="0%" x2="0%" y2="100%">'' @ newline @
      ''        <stop offset="0%" style="stop-color:#f0f4ff;stop-opacity:1" />'' @ newline @
      ''        <stop offset="100%" style="stop-color:#e0e8ff;stop-opacity:1" />'' @ newline @
      ''      </linearGradient>'' @ newline @
      ''    </defs>'' @ newline @
      ''    <rect width="800" height="600" fill="url(#slideGradient)"/>'' @ newline @
      ''    '' @ newline @
      ''    <!-- Slide border -->'' @ newline @
      ''    <rect width="798" height="598" x="1" y="1" fill="none" stroke="#dddddd" stroke-width="2"/>'' @ newline @
      ''    '' @ newline @
      ''    <!-- Slide number -->'' @ newline @
      ''    <text x="750" y="30" font-family="Arial" font-size="14" text-anchor="end" fill="#666666">'' @ newline @
      ''      '' @ (numberToString slideNumber) @
      '' / '' @ (numberToString totalSlides) @ newline @
      ''    </text>'' @ newline @
      ''    '' @ newline @
      ''    <!-- Title area with background -->'' @ newline @
      ''    <rect x="0" y="40" width="800" height="70" fill="#4a86e8" opacity="0.8"/>'' @ newline @
      ''    <text x="50" y="85" font-family="Arial" font-size="28" font-weight="bold" fill="white">'' @ newline @
      ''      Slide '' @ (numberToString slideNumber) @ newline @
      ''    </text>'' @ newline @
      ''    '' @ newline @
      ''    <!-- Center content area with placeholder message -->'' @ newline @
      ''    <rect x="150" y="200" width="500" height="200" rx="8" ry="8" fill="#f9f9f9" stroke="#dddddd" stroke-width="1"/>'' @ newline @
      ''    <text x="400" y="270" font-family="Arial" font-size="22" text-anchor="middle" fill="#333333" font-weight="bold">'' @ newline @
      ''      PowerPoint Slide '' @ (numberToString slideNumber) @ newline @
      ''    </text>'' @ newline @
      ''    <text x="400" y="310" font-family="Arial" font-size="16" text-anchor="middle" fill="#666666">'' @ newline @
      ''      This slide will display content from your presentation'' @ newline @
      ''    </text>'' @ newline @
      ''    <text x="400" y="340" font-family="Arial" font-size="16" text-anchor="middle" fill="#666666">'' @ newline @
      ''      You can add annotations using the form on the right'' @ newline @
      ''    </text>'' @ newline @
      ''    '' @ newline @
      ''    <!-- Logo/branding element -->'' @ newline @
      ''    <rect x="350" y="500" width="100" height="40" rx="20" ry="20" fill="#4a86e8"/>'' @ newline @
      ''    <text x="400" y="525" font-family="Arial" font-size="18" text-anchor="middle" fill="white" font-weight="bold">'' @ newline @
      ''      Slide '' @ (numberToString slideNumber) @ newline @
      ''    </text>'' @ newline @
      ''  </svg>'' @ newline @
      ''  ''
      in toBase64 (utf8 svgImage))\<close>

definition createAndSavePlaceholder :: "string \<Rightarrow> int \<Rightarrow> int \<Rightarrow> unit io" where
  "createAndSavePlaceholder presentationId slideNumber totalSlides =
     io_bind uuidv4 (\<lambda>slideId.
     saveSlide presentationId slideNumber slideId (createPlaceholderImage slideNumber totalSlides))"

text \<open>The loop \<open>for (let i = from; i <= totalSlides; i++)\<close> over placeholders.\<close>

function placeholdersFrom :: "string \<Rightarrow> int \<Rightarrow> int \<Rightarrow> unit io" where
  "placeholdersFrom presentationId i totalSlides =
     (if i \<le> totalSlides
      then io_bind (createAndSavePlaceholder presentationId i totalSlides) (\<lambda>_.
             placeholdersFrom presentationId (i + 1) totalSlides)
      else io_return ())"
  by pat_completeness auto
termination
  by (relation "measure (\<lambda>(presentationId, i, totalSlides). nat (totalSlides + 1 - i))") auto

declare placeholdersFrom.simps [simp del]

definition createFallbackSlides :: "string \<Rightarrow> string \<Rightarrow> unit io" where
  "createFallbackSlides presentationId filePath =
     io_try
       (io_bind (AdmZip filePath) (\<lambda>zip.
          let slideEntries = filter (\<lambda>entry. isSlideXml (entryName entry)) zip;
              totalSlides = (if length slideEntries > 0 then int (length slideEntries) else 10)
          in placeholdersFrom presentationId 1 totalSlides))
       (\<lambda>err. placeholdersFrom presentationId 1 10)"

text \<open>
  \<open>slideXML.match(/<a:t>(.*?)<\/a:t>/)?.[1]\<close>: at the leftmost \<open><a:t>\<close> from which a
  closing tag is reached without crossing a line terminator, the text up to the first
  closing tag.
\<close>

fun lazyUntil :: "string \<Rightarrow> string \<Rightarrow> string option" where
  "lazyUntil lit [] = (if lit = [] then Some [] else None)"
| "lazyUntil lit (c # cs) =
     (if startsWith lit (c # cs) then Some []
      else if isLineTerminator c then None
      else map_option ((#) c) (lazyUntil lit cs))"

fun matchTitle :: "string \<Rightarrow> string option" where
  "matchTitle [] = None"
| "matchTitle (c # cs) =
     (if startsWith ''<a:t>'' (c # cs)
      then (case lazyUntil ''</a:t>'' (drop 5 (c # cs)) of
              Some t \<Rightarrow> Some t
            | None \<Rightarrow> matchTitle cs)
      else matchTitle cs)"

text \<open>
  \<open>slideXML.match(/<a:t>([^<]*)<\/a:t>/g) || []\<close>: the successive matches, each the
  whole matched text.
\<close>

definition matchRunHere :: "string \<Rightarrow> string option" where
  "matchRunHere s =
     (if startsWith ''<a:t>'' s \<and> startsWith ''</a:t>'' (dropWhile (\<lambda>c. c \<noteq> CHR ''<'') (drop 5 s))
      then Some (''<a:t>'' @ takeWhile (\<lambda>c. c \<noteq> CHR ''<'') (drop 5 s) @ ''</a:t>'')
      else None)"

fun textMatches :: "string \<Rightarrow> string list" where
  "textMatches [] = []"
| "textMatches (c # cs) =
     (case matchRunHere (c # cs) of
        Some m \<Rightarrow> m # textMatches (drop (length m - 1) cs)
      | None \<Rightarrow> textMatches cs)"

record slideText =
  textTitle :: string
  textContent :: "string list"

definition extractTextFromSlideXML :: "string \<Rightarrow> slideText" where
  "extractTextFromSlideXML slideXML =
     (let title = (case matchTitle slideXML of
                     Some t \<Rightarrow> if t \<noteq> [] then t else ''Slide Title''
                   | None \<Rightarrow> ''Slide Title'');
          content = filter (\<lambda>text. length (trim text) > 0 \<and> text \<noteq> title)
                      (map (\<lambda>m. replaceFirst ''</a:t>'' [] (replaceFirst ''<a:t>'' [] m)) (textMatches slideXML))
      in \<lparr>textTitle = title, textContent = content\<rparr>)"

section \<open>presentationService.ts: the fallback extractor\<close>

text \<open>\<open>regex.exec\<close> in a loop with \<open>/r:embed="(rId\d+)"/g\<close>: the captures in order.\<close>

definition extractImageReferencesFromXML :: "string \<Rightarrow> string list" where
  \<open>extractImageReferencesFromXML slideXML =
     map (\<lambda>ds. ''rId'' @ ds) (matchAllDigits ''r:embed="rId'' ''"'' slideXML)\<close>

text \<open>
  \<open>relsContent.match(new RegExp(`Id="${rId}"[^>]*Target="([^"]+)"`))\<close>: at the leftmost
  occurrence of the identifier from which it succeeds, the greedy \<open>[^>]*\<close> gives back
  characters one at a time, so the target found is the last one in the run.
\<close>

definition matchTargetHere :: "string \<Rightarrow> string option" where
  \<open>matchTargetHere s =
     (if startsWith ''Target="'' s \<and> takeWhile (\<lambda>c. c \<noteq> CHR 0x22) (drop 8 s) \<noteq> []
         \<and> startsWith ''"'' (dropWhile (\<lambda>c. c \<noteq> CHR 0x22) (drop 8 s))
      then Some (takeWhile (\<lambda>c. c \<noteq> CHR 0x22) (drop 8 s)) else None)\<close>

fun firstSome :: "('a \<Rightarrow> 'b option) \<Rightarrow> 'a list \<Rightarrow> 'b option" where
  "firstSome f [] = None"
| "firstSome f (x # xs) = (case f x of Some y \<Rightarrow> Some y | None \<Rightarrow> firstSome f xs)"

definition matchRelationshipHere :: "string \<Rightarrow> string \<Rightarrow> string option" where
  \<open>matchRelationshipHere rId s =
     (let lit = ''Id="'' @ rId @ ''"'' in
      if startsWith lit s
      then (let r = drop (length lit) s;
                n = length (takeWhile (\<lambda>c. c \<noteq> CHR ''>'') r)
            in firstSome (\<lambda>k. matchTargetHere (drop k r)) (rev [0..<Suc n]))
      else None)\<close>

fun matchRelationship :: "string \<Rightarrow> string \<Rightarrow> string option" where
  "matchRelationship rId [] = None"
| "matchRelationship rId (c # cs) =
     (case matchRelationshipHere rId (c # cs) of
        Some target \<Rightarrow> Some target
      | None \<Rightarrow> matchRelationship rId cs)"

text \<open>The inner loop over the references, for one relationship file.\<close>

fun imagesOfRefs :: "zipEntry list \<Rightarrow> string \<Rightarrow> string list \<Rightarrow> string list \<Rightarrow> string list io" where
  "imagesOfRefs zipArchive relsContent [] images = io_return images"
| "imagesOfRefs zipArchive relsContent (rId # rest) images =
     (case matchRelationship rId relsContent of
        Some targetPath \<Rightarrow>
          if targetPath \<noteq> [] then
            (let mediaPath = (if startsWith ''../'' targetPath then ''ppt/'' @ drop 3 targetPath
                              else ''ppt/slides/'' @ targetPath)
             in io_bind
                  (io_try
                     (case getEntry zipArchive mediaPath of
                        Some imageEntry \<Rightarrow>
                          io_bind (getData imageEntry) (\<lambda>imageData. io_return (images @ [toBase64 imageData]))
                      | None \<Rightarrow> io_return images)
                     (\<lambda>err. io_return images))
                  (\<lambda>images'. imagesOfRefs zipArchive relsContent rest images'))
          else imagesOfRefs zipArchive relsContent rest images
      | None \<Rightarrow> imagesOfRefs zipArchive relsContent rest images)"

text \<open>The outer loop over the relationship files; reading one is not guarded.\<close>

fun imagesOfRels :: "zipEntry list \<Rightarrow> string list \<Rightarrow> zipEntry list \<Rightarrow> string list \<Rightarrow> string list io" where
  "imagesOfRels zipArchive imageRefs [] images = io_return images"
| "imagesOfRels zipArchive imageRefs (relsEntry # rest) images =
     io_bind (readAsText zipArchive (entryName relsEntry)) (\<lambda>relsContent.
     io_bind (imagesOfRefs zipArchive relsContent imageRefs images) (\<lambda>images'.
     imagesOfRels zipArchive imageRefs rest images'))"

fun imagesOfMedia :: "zipEntry list \<Rightarrow> string list \<Rightarrow> string list io" where
  "imagesOfMedia [] images = io_return images"
| "imagesOfMedia (entry # rest) images =
     io_bind (io_try (io_bind (getData entry) (\<lambda>imageData. io_return (images @ [toBase64 imageData])))
                     (\<lambda>err. io_return images))
       (\<lambda>images'. imagesOfMedia rest images')"

definition findImagesInPresentation :: "zipEntry list \<Rightarrow> string list \<Rightarrow> string \<Rightarrow> string list io" where
  "findImagesInPresentation zipArchive imageRefs outputDir =
     (let slideRelsEntries =
            filter (\<lambda>entry. startsWith ''ppt/slides/_rels/'' (entryName entry) \<and> endsWith ''.rels'' (entryName entry))
              zipArchive
      in io_bind (imagesOfRels zipArchive imageRefs slideRelsEntries []) (\<lambda>images.
         if length images = 0 then
           (let mediaEntries =
                  filter (\<lambda>entry. startsWith ''ppt/media/'' (entryName entry)
                            \<and> (endsWith ''.png'' (entryName entry) \<or> endsWith ''.jpg'' (entryName entry)
                                \<or> endsWith ''.jpeg'' (entryName entry) \<or> endsWith ''.gif'' (entryName entry)))
                    zipArchive
            in imagesOfMedia mediaEntries images)
         else io_return images))"

text \<open>\<open>Buffer.from(s, 'base64')\<close> on well-formed input.\<close>

definition base64Index :: "char \<Rightarrow> nat" where
  "base64Index c = length (takeWhile (\<lambda>x. x \<noteq> c) base64Alphabet) mod 64"

fun fromBase64 :: "string \<Rightarrow> string" where
  "fromBase64 (a # b # c # d # rest) =
     (let n = base64Index a * 262144 + base64Index b * 4096 + base64Index c * 64 + base64Index d in
      if c = CHR ''='' then [char_of (n div 65536)]
      else if d = CHR ''='' then [char_of (n div 65536), char_of (n div 256)]
      else [char_of (n div 65536), char_of (n div 256), char_of n] @ fromBase64 rest)"
| "fromBase64 s = []"

definition replaceAll :: "char \<Rightarrow> string \<Rightarrow> string \<Rightarrow> string" where
  "replaceAll c rep s = concat (map (\<lambda>x. if x = c then rep else [x]) s)"

definition escapeHtml :: "string \<Rightarrow> string" where
  "escapeHtml text =
     replaceAll (CHR 0x27) ''&#039;''
       (replaceAll (CHR 0x22) ''&quot;''
          (replaceAll (CHR ''>'') ''&gt;''
             (replaceAll (CHR ''<'') ''&lt;''
                (replaceAll (CHR ''&'') ''&amp;'' text))))"

fun joinWith :: "string \<Rightarrow> string list \<Rightarrow> string" where
  "joinWith sep [] = []"
| "joinWith sep [x] = x"
| "joinWith sep (x # y # rest) = x @ sep @ joinWith sep (y # rest)"

definition contentText :: "string list \<Rightarrow> string" where
  \<open>contentText content =
     joinWith newline
       (map (\<lambda>(index, text).
                ''<text x="50" y="'' @ (natToString (150 + index * 30)) @
                ''" font-family="Arial" font-size="16" fill="#333333">'' @ (escapeHtml text) @
                ''</text>'')
          (zip [0..<length content] content))\<close>

definition detectImageType :: "string \<Rightarrow> string" where
  "detectImageType base64Image =
     (let imageData = fromBase64 base64Image in
      if length imageData > 2 then
        (if imageData ! 0 = CHR 0xFF \<and> imageData ! 1 = CHR 0xD8 then ''image/jpeg''
         else if length imageData > 8 \<and> imageData ! 0 = CHR 0x89 \<and> imageData ! 1 = CHR 0x50
                 \<and> imageData ! 2 = CHR 0x4E \<and> imageData ! 3 = CHR 0x47 then ''image/png''
         else if length imageData > 3 \<and> imageData ! 0 = CHR 0x47 \<and> imageData ! 1 = CHR 0x49
                 \<and> imageData ! 2 = CHR 0x46 then ''image/gif''
         else ''image/png'')
      else ''image/png'')"

definition imageElements :: "string list \<Rightarrow> string list \<Rightarrow> string" where
  \<open>imageElements content images =
     (if length images > 0 then
        joinWith newline
          (map (\<lambda>(index, base64Image).
                  let x = 50 + (index mod 3) * 250;
                      y = 160 + (index div 3) * 180;
                      imageType = detectImageType base64Image
                  in
                    newline @
                    ''        <image x="'' @ (natToString x) @
                    ''" y="'' @ (natToString y) @
                    ''" width="200" height="150" href="data:'' @
                    imageType @
                    '';base64,'' @
                    base64Image @
                    ''" />'' @ newline @
                    ''        '')
             (zip [0..<length images] images))
      else if length content > 0 then []
      else
        newline @
        ''        <g>'' @ newline @
        ''          <rect x="100" y="180" width="600" height="300" fill="#f5f5f5" stroke="#cccccc" stroke-width="1" />'' @ newline @
        ''          <text x="400" y="330" font-family="Arial" font-size="16" text-anchor="middle" fill="#666666">'' @ newline @
        ''            Slide Content'' @ newline @
        ''          </text>'' @ newline @
        ''        </g>'' @ newline @
        ''      '')\<close>

text \<open>
  The schematic image of a slide. The wrapped title and content elements that the source
  also builds (\<open>createTextElement\<close>) do not enter the image and are left out.
\<close>

definition createRichSlideVisualization :: "int \<Rightarrow> int \<Rightarrow> string \<Rightarrow> string list \<Rightarrow> string list \<Rightarrow> string" where
  \<open>createRichSlideVisualization slideNumber totalSlides title content images =
     (let svgContent =
        ''<?xml version="1.0" encoding="UTF-8" standalone="no"?>'' @ newline @
        ''  <svg width="800" height="600" xmlns="http://www.w3.org/2000/svg">'' @ newline @
        ''    <!-- Background with gradient -->'' @ newline @
        ''    <defs>'' @ newline @
        ''      <linearGradient id="slideGradient" x1="0%" y1="0%" x2="0%" y2="100%">'' @ newline @
        ''        <stop offset="0%" style="stop-color:#f0f4ff;stop-opacity:1" />'' @ newline @
        ''        <stop offset="100%" style="stop-color:#e0e8ff;stop-opacity:1" />'' @ newline @
        ''      </linearGradient>'' @ newline @
        ''    </defs>'' @ newline @
        ''    <rect width="800" height="600" fill="url(#slideGradient)"/>'' @ newline @
        ''    '' @ newline @
        ''    <!-- Slide border -->'' @ newline @
        ''    <rect width="798" height="598" x="1" y="1" fill="none" stroke="#dddddd" stroke-width="2"/>'' @ newline @
        ''    '' @ newline @
        ''    <!-- Slide number -->'' @ newline @
        ''    <text x="750" y="30" font-family="Arial" font-size="14" text-anchor="end" fill="#666666">'' @ newline @
        ''      '' @ (numberToString slideNumber) @
        '' / '' @ (numberToString totalSlides) @ newline @
        ''    </text>'' @ newline @
        ''    '' @ newline @
        ''    <!-- Title area with background -->'' @ newline @
        ''    <rect x="0" y="40" width="800" height="70" fill="#4a86e8" opacity="0.8"/>'' @ newline @
        ''    <text x="50" y="85" font-family="Arial" font-size="28" font-weight="bold" fill="white">'' @ newline @
        ''      '' @ (escapeHtml title) @ newline @
        ''    </text>'' @ newline @
        ''    '' @ newline @
        ''    <!-- Content text elements -->'' @ newline @
        ''    '' @ (contentText content) @ newline @
        ''    '' @ newline @
        ''    <!-- Image elements -->'' @ newline @
        ''    '' @ (imageElements content images) @ newline @
        ''  </svg>'' @ newline @
        ''  ''
      in toBase64 (utf8 svgContent))\<close>

text \<open>\<open>matchA && matchA[1] ? parseInt(matchA[1]) : 0\<close> with \<open>/slide([0-9]+)\.xml/\<close>\<close>

definition slideXmlNumber :: "zipEntry \<Rightarrow> number" where
  "slideXmlNumber entry =
     (case matchDigits ''slide'' ''.xml'' (entryName entry) of
        Some ds \<Rightarrow> (case parseInt ds of Some n \<Rightarrow> n | None \<Rightarrow> Finite 0)
      | None \<Rightarrow> Finite 0)"

text \<open>The loop \<open>for (let i = 0; i < slideXMLs.length; i++)\<close>, from position \<open>i\<close> on.\<close>

fun renderSlides :: "zipEntry list \<Rightarrow> string \<Rightarrow> string \<Rightarrow> int \<Rightarrow> nat \<Rightarrow> zipEntry list \<Rightarrow> unit io" where
  "renderSlides zipArchive presentationId outputDir actualTotalSlides i [] = io_return ()"
| "renderSlides zipArchive presentationId outputDir actualTotalSlides i (slideXML # rest) =
     (let slideNumber = int i + 1 in
      io_bind uuidv4 (\<lambda>slideId.
      io_bind (readAsText zipArchive (entryName slideXML)) (\<lambda>slideContent.
      let extracted = extractTextFromSlideXML slideContent;
          slideImageRefs = extractImageReferencesFromXML slideContent
      in
      io_bind (findImagesInPresentation zipArchive slideImageRefs outputDir) (\<lambda>slideImages.
      let imageBase64 = createRichSlideVisualization slideNumber actualTotalSlides
                          (textTitle extracted) (textContent extracted) slideImages
      in
      io_bind (saveSlide presentationId slideNumber slideId imageBase64) (\<lambda>_.
      renderSlides zipArchive presentationId outputDir actualTotalSlides (Suc i) rest)))))"

text \<open>
  \<open>totalSlides\<close> is optional: \<open>None\<close> is \<open>undefined\<close>, and \<open>totalSlides || detected\<close>
  takes the detected count for \<open>undefined\<close> and for 0.
\<close>

definition processSlides :: "string \<Rightarrow> string \<Rightarrow> string \<Rightarrow> int option \<Rightarrow> unit io" where
  "processSlides filePath presentationId outputDir totalSlides =
     io_try
       (if \<not> endsWith ''.pptx'' (toLowerCase filePath)
        then io_throw (Error ''Only PPTX files are supported'')
        else
          io_bind (AdmZip filePath) (\<lambda>zip.
            let slideXMLs = sort_key slideXmlNumber
                              (filter (\<lambda>entry. entryName entry \<noteq> [] \<and> isSlideXml (entryName entry)) zip);
                detectedSlideCount = int (length slideXMLs);
                actualTotalSlides = (case totalSlides of
                                       Some t \<Rightarrow> if t \<noteq> 0 then t else detectedSlideCount
                                     | None \<Rightarrow> detectedSlideCount)
            in if detectedSlideCount = 0
               then createAndSavePlaceholder presentationId 1 (if actualTotalSlides > 0 then actualTotalSlides else 1)
               else renderSlides zip presentationId outputDir actualTotalSlides 0 slideXMLs))
       (\<lambda>err. createFallbackSlides presentationId filePath)"

section \<open>presentationService.ts: ordering the converted images\<close>

text \<open>
  \<open>getNumber\<close> of the comparator. \<open>parseInt\<close> of a captured digit run is never NaN
  (lemma \<open>parseInt_digits\<close>), so the default of the inner case is never taken.
\<close>

definition getNumber :: "string \<Rightarrow> number" where
  "getNumber filename =
     (case matchDigits ''slide-'' ''.png'' filename of
        Some dashMatch \<Rightarrow> (case parseInt dashMatch of Some n \<Rightarrow> n | None \<Rightarrow> Finite 0)
      | None \<Rightarrow>
          (case matchDigits ''slide'' ''.png'' filename of
             Some noDashMatch \<Rightarrow> (case parseInt noDashMatch of Some n \<Rightarrow> n | None \<Rightarrow> Finite 0)
           | None \<Rightarrow>
               (case matchDigits [] [] filename of
                  Some anyNumber \<Rightarrow> (case parseInt anyNumber of Some n \<Rightarrow> n | None \<Rightarrow> Finite 0)
                | None \<Rightarrow> Finite 0)))"

text \<open>
  \<open>files.filter(file => file.endsWith('.png')).sort((a, b) => getNumber(a) - getNumber(b))\<close>:
  the difference is negative, zero or positive as the first number is below, equal to or
  above the second (the difference of two equal infinities is NaN, which the sort takes
  for zero), and the sort is stable, so it is the stable sort by the key \<open>getNumber\<close>.
\<close>

definition sortSlideFiles :: "string list \<Rightarrow> string list" where
  "sortSlideFiles files = sort_key getNumber (filter (endsWith ''.png'') files)"

section \<open>presentationService.ts: the conversion strategies and the entry point\<close>

text \<open>
  The entry point tries the PDF route twice and then the fallback extractor. The function
  \<open>convertWithUnoconv\<close> of the source is called from nowhere and has no counterpart
  here. Log output is not part of the model.
\<close>

text \<open>\<open>path.basename\<close> and \<open>path.extname\<close> on POSIX paths without trailing slash.\<close>

definition lastComponent :: "string \<Rightarrow> string" where
  "lastComponent p = rev (takeWhile (\<lambda>c. c \<noteq> CHR ''/'') (rev p))"

definition extname :: "string \<Rightarrow> string" where
  "extname p =
     (let b = lastComponent p;
          e = rev (takeWhile (\<lambda>c. c \<noteq> CHR ''.'') (rev b))
      in if CHR ''.'' \<notin> set b \<or> length b - length e - 1 = 0 then [] else CHR ''.'' # e)"

definition basename :: "string \<Rightarrow> string \<Rightarrow> string" where
  "basename p ext =
     (let b = lastComponent p
      in if ext \<noteq> [] \<and> endsWith ext b \<and> b \<noteq> ext then take (length b - length ext) b else b)"

definition ensureDir :: "string \<Rightarrow> unit io" where
  "ensureDir dir = io_bind (existsSync dir) (\<lambda>ex. if \<not> ex then mkdirSync dir else io_return ())"

text \<open>
  The loop that saves the sorted image files, from position \<open>i\<close> on; \<open>cleanup\<close> says
  whether the loop deletes each file after saving it (only the first attempt does).
\<close>

fun saveImageFiles :: "bool \<Rightarrow> string \<Rightarrow> string \<Rightarrow> nat \<Rightarrow> string list \<Rightarrow> unit io" where
  "saveImageFiles cleanup presentationId imagesDir i [] = io_return ()"
| "saveImageFiles cleanup presentationId imagesDir i (f # rest) =
     (let slideNumber = int i + 1 in
      io_bind uuidv4 (\<lambda>slideId.
      let imagePath = pathJoin imagesDir f in
      io_bind (existsSync imagePath) (\<lambda>ex.
      io_bind
        (if ex then
           io_bind (readFileSync imagePath) (\<lambda>bytes.
           io_bind (saveSlide presentationId slideNumber slideId (toBase64 bytes)) (\<lambda>_.
           if cleanup then io_try (unlinkSync imagePath) (\<lambda>cleanupError. io_return ())
           else io_return ()))
         else io_return ())
        (\<lambda>_. saveImageFiles cleanup presentationId imagesDir (Suc i) rest))))"

text \<open>\<open>parseInt(a.match(slidePattern)?.[1] || '0')\<close> with \<open>/slide-(\d+)\.png/\<close>\<close>

definition dashNumber :: "string \<Rightarrow> number" where
  "dashNumber a =
     (case parseInt (case matchDigits ''slide-'' ''.png'' a of Some ds \<Rightarrow> ds | None \<Rightarrow> ''0'') of
        Some n \<Rightarrow> n
      | None \<Rightarrow> Finite 0)"

text \<open>\<open>parseInt(a.replace(/slide-(\d+)\.jpg/, '$1')) || 0\<close>\<close>

fun replaceByCapture :: "string \<Rightarrow> string \<Rightarrow> string \<Rightarrow> string" where
  "replaceByCapture pre post [] = []"
| "replaceByCapture pre post (c # cs) =
     (case matchDigitsHere pre post (c # cs) of
        Some ds \<Rightarrow> ds @ drop (length pre + length ds + length post) (c # cs)
      | None \<Rightarrow> c # replaceByCapture pre post cs)"

definition jpgNumber :: "string \<Rightarrow> number" where
  "jpgNumber a =
     (case parseInt (replaceByCapture ''slide-'' ''.jpg'' a) of Some n \<Rightarrow> n | None \<Rightarrow> Finite 0)"

definition sofficeCommand :: "string \<Rightarrow> string \<Rightarrow> string" where
  \<open>sofficeCommand outputDir filePath =
     ''soffice --headless --convert-to pdf --outdir "'' @ outputDir @ ''" "'' @ filePath @ ''"''\<close>

definition pdftoppmCommand :: "string \<Rightarrow> string \<Rightarrow> string \<Rightarrow> string" where
  \<open>pdftoppmCommand options pdfPath imagesDir =
     ''pdftoppm -png '' @ options @ ''"'' @ pdfPath @ ''" "'' @ imagesDir @ ''/slide"''\<close>

definition convertCommand :: "string \<Rightarrow> string \<Rightarrow> string" where
  \<open>convertCommand pdfPath imagesDir =
     ''convert -density 96 -quality 85 -background white -alpha remove "'' @ pdfPath @ ''" "''
       @ imagesDir @ ''/slide-%d.jpg"''\<close>

text \<open>
  Where a block of the entry point ends: with its \<open>return\<close> statement, or by falling
  through with the value of \<open>success\<close>.
\<close>

datatype outcome = Returned string | Continue bool

text \<open>The body of the first \<open>try\<close>: PDF export, then rasterisation at 150 dpi.\<close>

definition convertViaPdf :: "string \<Rightarrow> string \<Rightarrow> string \<Rightarrow> outcome io" where
  "convertViaPdf filePath presentationId outputDir =
     (let imagesDir = pathJoin outputDir ''images'' in
      io_bind (ensureDir imagesDir) (\<lambda>_.
      let pdfPath = pathJoin outputDir ''presentation.pdf'' in
      io_bind (execPromise (sofficeCommand outputDir filePath)) (\<lambda>_.
      let baseFileName = basename filePath (extname filePath);
          generatedPdfPath = pathJoin outputDir (baseFileName @ ''.pdf'')
      in
      io_bind (existsSync generatedPdfPath) (\<lambda>generated.
      io_bind (if generated \<and> generatedPdfPath \<noteq> pdfPath then renameSync generatedPdfPath pdfPath
               else io_return ()) (\<lambda>_.
      io_bind (existsSync pdfPath) (\<lambda>pdfExists.
      io_bind
        (if pdfExists then
           io_bind (execPromise (pdftoppmCommand ''-r 150 '' pdfPath imagesDir)) (\<lambda>_.
           io_bind (readdirSync imagesDir) (\<lambda>listing.
           let slideFiles = sortSlideFiles listing in
           if length slideFiles > 0 then
             io_bind (saveImageFiles True presentationId imagesDir 0 slideFiles) (\<lambda>_.
             io_bind (io_try (unlinkSync pdfPath) (\<lambda>cleanupError. io_return ())) (\<lambda>_.
             io_return (Returned presentationId)))
           else io_return (Continue False)))
         else io_return (Continue False))
        (\<lambda>r. case r of
           Returned v \<Rightarrow> io_return (Returned v)
         | Continue success \<Rightarrow>
             io_bind (readdirSync imagesDir) (\<lambda>listing.
             let files = sort_key dashNumber (filter (\<lambda>f. matchDigits ''slide-'' ''.png'' f \<noteq> None) listing) in
             if length files > 0 then
               io_bind (saveImageFiles False presentationId imagesDir 0 files) (\<lambda>_.
               io_return (Continue True))
             else
               io_bind (readdirSync imagesDir) (\<lambda>listing'.
               let pngFiles = sort (filter (endsWith ''.png'') listing') in
               if length pngFiles > 0 then
                 io_bind (saveImageFiles False presentationId imagesDir 0 pngFiles) (\<lambda>_.
                 io_return (Continue True))
               else io_return (Continue success))))))))))"

text \<open>The second attempt, made when \<open>success\<close> is still false.\<close>

definition convertViaPdfAgain :: "string \<Rightarrow> string \<Rightarrow> string \<Rightarrow> bool io" where
  "convertViaPdfAgain filePath presentationId outputDir =
     io_try
       (let pdfPath = pathJoin outputDir ''presentation.pdf'';
            imagesDir = pathJoin outputDir ''images''
        in
        io_bind (ensureDir imagesDir) (\<lambda>_.
        io_bind (execPromise (sofficeCommand outputDir filePath)) (\<lambda>_.
        let baseFileName = basename filePath (extname filePath);
            generatedPdfPath = pathJoin outputDir (baseFileName @ ''.pdf'')
        in
        io_bind (existsSync generatedPdfPath) (\<lambda>generated.
        io_bind (if generated \<and> generatedPdfPath \<noteq> pdfPath then renameSync generatedPdfPath pdfPath
                 else io_return ()) (\<lambda>_.
        io_bind (existsSync pdfPath) (\<lambda>pdfExists.
        if pdfExists then
          io_try
            (io_bind (execPromise ''which pdftoppm'') (\<lambda>_.
             io_bind (execPromise (pdftoppmCommand [] pdfPath imagesDir)) (\<lambda>_.
             io_bind (readdirSync imagesDir) (\<lambda>listing.
             let images = sortSlideFiles listing in
             if length images > 0 then
               io_bind (saveImageFiles False presentationId imagesDir 0 images) (\<lambda>_. io_return True)
             else io_return False))))
            (\<lambda>pdftoppmError.
               io_try
                 (io_bind (execPromise (convertCommand pdfPath imagesDir)) (\<lambda>_.
                  io_bind (readdirSync imagesDir) (\<lambda>listing.
                  let images = sort_key jpgNumber
                                 (filter (\<lambda>f. matchDigits ''slide-'' ''.jpg'' f \<noteq> None) listing) in
                  if length images > 0 then
                    io_bind (saveImageFiles False presentationId imagesDir 0 images) (\<lambda>_. io_return True)
                  else io_return False)))
                 (\<lambda>convertError. io_return False))
        else io_return False))))))
       (\<lambda>err. io_return False)"

definition cleanupUpload :: "string \<Rightarrow> unit io" where
  "cleanupUpload filePath =
     io_try (io_bind (existsSync filePath) (\<lambda>ex. if ex then unlinkSync filePath else io_return ()))
            (\<lambda>err. io_return ())"

definition processPresentation :: "string \<Rightarrow> string \<Rightarrow> string io" where
  "processPresentation filename filePath =
     io_try
       (io_bind (createPresentation filename) (\<lambda>presentationId.
        io_bind getCwd (\<lambda>workingDir.
        let outputDir = pathJoin (pathJoin workingDir ''uploads'') presentationId in
        io_bind (ensureDir outputDir) (\<lambda>_.
        io_bind (getSlideCount filePath) (\<lambda>totalSlides.
        io_bind (io_try (convertViaPdf filePath presentationId outputDir)
                        (\<lambda>err. io_return (Continue False))) (\<lambda>r.
        case r of
          Returned v \<Rightarrow> io_return v
        | Continue success \<Rightarrow>
            io_bind (if \<not> success then convertViaPdfAgain filePath presentationId outputDir
                     else io_return success) (\<lambda>success.
            io_bind (if \<not> success then processSlides filePath presentationId outputDir (Some totalSlides)
                     else io_return ()) (\<lambda>_.
            io_bind (cleanupUpload filePath) (\<lambda>_.
            io_return presentationId)))))))))
       (\<lambda>err. io_bind (cleanupUpload filePath) (\<lambda>_. io_throw err))"

section \<open>Notions used in the statements\<close>

text \<open>
  An entry name is readable when \<open>readAsText\<close> does not throw on it; a slide entry is
  extractable when its text and every slide relationship file are readable, which is when
  one turn of the extraction loop gets as far as saving the slide.
\<close>

definition readable :: "zipEntry list \<Rightarrow> string \<Rightarrow> bool" where
  "readable zipArchive name =
     (case getEntry zipArchive name of None \<Rightarrow> True | Some e \<Rightarrow> entryData e \<noteq> None)"

definition relsReadable :: "zipEntry list \<Rightarrow> bool" where
  "relsReadable zipArchive =
     list_all (\<lambda>entry. readable zipArchive (entryName entry))
       (filter (\<lambda>entry. startsWith ''ppt/slides/_rels/'' (entryName entry) \<and> endsWith ''.rels'' (entryName entry))
          zipArchive)"

definition extractable :: "zipEntry list \<Rightarrow> zipEntry \<Rightarrow> bool" where
  "extractable zipArchive slideXML = (readable zipArchive (entryName slideXML) \<and> relsReadable zipArchive)"

text \<open>
  The slide table of the later world begins with that of the earlier one: nothing was
  removed or changed; an action is keeping when this holds of every world it is run in.
\<close>

definition keepsSlides :: "world \<Rightarrow> world \<Rightarrow> bool" where
  "keepsSlides w w' = (take (length (slidesT w)) (slidesT w') = slidesT w)"

definition keeping :: "'a io \<Rightarrow> bool" where
  "keeping m = (\<forall>w. keepsSlides w (snd (m w)))"

text \<open>The number of placeholders \<open>createFallbackSlides\<close> sets out to create.\<close>

definition fallbackCount :: "string \<Rightarrow> world \<Rightarrow> int" where
  "fallbackCount filePath w =
     (case fst (AdmZip filePath w) of
        Inl err \<Rightarrow> 10
      | Inr entries \<Rightarrow>
          if length (filter (\<lambda>entry. isSlideXml (entryName entry)) entries) > 0
          then int (length (filter (\<lambda>entry. isSlideXml (entryName entry)) entries)) else 10)"

text \<open>
  The slide-id markers of a manifest in the words of the specification, not of the code:
  the start tags of the element \<open>p:sldId\<close>, one for each slide, which are the places
  where \<open><p:sldId\<close> stands and the element name ends with it. The start tag of the
  list that holds them, \<open><p:sldIdLst\<close>, is not a slide id.
\<close>

definition isNameChar :: "char \<Rightarrow> bool" where
  "isNameChar c =
     (isDigit c \<or> (CHR ''a'' \<le> c \<and> c \<le> CHR ''z'') \<or> (CHR ''A'' \<le> c \<and> c \<le> CHR ''Z'')
      \<or> c = CHR ''-'' \<or> c = CHR ''_'' \<or> c = CHR ''.'' \<or> c = CHR '':'')"

fun specSlideIdMarkers :: "string \<Rightarrow> nat" where
  "specSlideIdMarkers [] = 0"
| "specSlideIdMarkers (c # cs) =
     (if startsWith ''<p:sldId'' (c # cs) \<and> (case drop 7 cs of [] \<Rightarrow> True | d # ds \<Rightarrow> \<not> isNameChar d)
      then Suc (specSlideIdMarkers cs)
      else specSlideIdMarkers cs)"

text \<open>
  The slide-id list of a manifest with one slide id for each attribute text, as in
  \<open><p:sldIdLst><p:sldId id="256" r:id="rId2"/></p:sldIdLst>\<close>. An attribute text is
  empty or begins with a blank, and holds no \<open><\<close>.
\<close>

definition slideIdList :: "string list \<Rightarrow> string" where
  "slideIdList attrs = ''<p:sldIdLst>'' @ concat (map (\<lambda>a. ''<p:sldId'' @ a @ ''/>'') attrs) @ ''</p:sldIdLst>''"

definition attributeText :: "string \<Rightarrow> bool" where
  "attributeText a = (CHR ''<'' \<notin> set a \<and> (a = [] \<or> hd a = CHR '' ''))"

section \<open>Example worlds\<close>

text \<open>
  A store with one presentation of two slides, the second slide annotated, and no external
  tool installed.
\<close>

definition noTools :: "string \<Rightarrow> files \<Rightarrow> files option" where
  "noTools cmd fs = None"

definition annotatedWorld :: world where
  "annotatedWorld =
     \<lparr>presentationsT = [\<lparr>p_id = ''p1'', p_name = ''deck.pptx'', p_submitted = False\<rparr>],
      slidesT = [\<lparr>s_presentation_id = ''p1'', s_slide_id = ''s1'', s_slide_number = 1, s_image = ''AAAA''\<rparr>,
                 \<lparr>s_presentation_id = ''p1'', s_slide_id = ''s2'', s_slide_number = 2, s_image = ''BBBB''\<rparr>],
      annotationsT = [\<lparr>a_presentation_id = ''p1'', a_slide_id = ''s2'',
                        a_tags = [\<lparr>tag_key = ''topic'', tag_value = ''old''\<rparr>, \<lparr>tag_key = ''owner'', tag_value = ''ann''\<rparr>]\<rparr>],
      sqliteInput = [], sqliteOutput = [], dbScript = [], uuidCounter = 0,
      fsFiles = [], fsDirs = [], cwd = ''/app'', shell = noTools\<rparr>"

text \<open>
  Three uploads: a deck of two slides (listed out of order), the same deck with its second
  slide unreadable, and an archive without slides whose manifest names two.
\<close>

definition deckEntries :: "zipEntry list" where
  "deckEntries =
     [\<lparr>entryName = ''ppt/presentation.xml'', entryData = Some ''<p:sldIdLst><p:sldId/><p:sldId/></p:sldIdLst>''\<rparr>,
      \<lparr>entryName = ''ppt/slides/slide2.xml'', entryData = Some ''<a:t>Second</a:t>''\<rparr>,
      \<lparr>entryName = ''ppt/slides/slide1.xml'', entryData = Some ''<a:t>First</a:t><a:t>Body</a:t>''\<rparr>]"

definition brokenEntries :: "zipEntry list" where
  "brokenEntries =
     [\<lparr>entryName = ''ppt/presentation.xml'', entryData = Some ''<p:sldIdLst><p:sldId/><p:sldId/></p:sldIdLst>''\<rparr>,
      \<lparr>entryName = ''ppt/slides/slide2.xml'', entryData = None\<rparr>,
      \<lparr>entryName = ''ppt/slides/slide1.xml'', entryData = Some ''<a:t>First</a:t><a:t>Body</a:t>''\<rparr>]"

definition noSlideEntries :: "zipEntry list" where
  "noSlideEntries =
     [\<lparr>entryName = ''ppt/presentation.xml'', entryData = Some ''<p:sldIdLst><p:sldId/><p:sldId/></p:sldIdLst>''\<rparr>]"

definition uploadedFiles :: files where
  "uploadedFiles =
     [(''/app/uploads/deck.pptx'', \<lparr>fileBytes = ''PK-deck'', fileZip = Some deckEntries\<rparr>),
      (''/app/uploads/broken.pptx'', \<lparr>fileBytes = ''PK-broken'', fileZip = Some brokenEntries\<rparr>),
      (''/app/uploads/empty.pptx'', \<lparr>fileBytes = ''PK-empty'', fileZip = Some noSlideEntries\<rparr>)]"

definition uploadWorld :: world where
  "uploadWorld =
     \<lparr>presentationsT = [\<lparr>p_id = ''p1'', p_name = ''deck.pptx'', p_submitted = False\<rparr>],
      slidesT = [], annotationsT = [], sqliteInput = [], sqliteOutput = [], dbScript = [],
      uuidCounter = 0, fsFiles = uploadedFiles, fsDirs = [''/app/uploads''], cwd = ''/app'',
      shell = noTools\<rparr>"

text \<open>
  Tools that work: the office suite writes the PDF next to the output directory of the
  first presentation, the rasteriser writes two page images.
\<close>

definition pdfTools :: "string \<Rightarrow> files \<Rightarrow> files option" where
  "pdfTools cmd fs =
     (if startsWith ''soffice '' cmd
      then Some (fs @ [(''/app/uploads/uuid-0/deck.pdf'', \<lparr>fileBytes = ''%PDF'', fileZip = None\<rparr>)])
      else if startsWith ''pdftoppm '' cmd
      then Some (fs @ [(''/app/uploads/uuid-0/images/slide-2.png'', \<lparr>fileBytes = ''png2'', fileZip = None\<rparr>),
                        (''/app/uploads/uuid-0/images/slide-1.png'', \<lparr>fileBytes = ''png1'', fileZip = None\<rparr>)])
      else None)"

definition convertingWorld :: world where
  "convertingWorld =
     \<lparr>presentationsT = [], slidesT = [], annotationsT = [], sqliteInput = [], sqliteOutput = [],
      dbScript = [], uuidCounter = 0, fsFiles = uploadedFiles, fsDirs = [''/app/uploads''],
      cwd = ''/app'', shell = pdfTools\<rparr>"

text \<open>The uploads again, with a store that rejects the next statement.\<close>

definition failingStoreWorld :: world where
  "failingStoreWorld = uploadWorld\<lparr>dbScript := [False]\<rparr>"

text \<open>The ten page images \<open>slide-01.png\<close> to \<open>slide-10.png\<close>, and a listing of them.\<close>

definition tenSlideFiles :: "string list" where
  "tenSlideFiles =
     [''slide-01.png'', ''slide-02.png'', ''slide-03.png'', ''slide-04.png'', ''slide-05.png'',
      ''slide-06.png'', ''slide-07.png'', ''slide-08.png'', ''slide-09.png'', ''slide-10.png'']"

definition tenListing :: "string list" where
  "tenListing =
     [''slide-10.png'', ''slide-03.png'', ''slide-01.png'', ''slide-07.png'', ''slide-02.png'',
      ''slide-09.png'', ''slide-05.png'', ''slide-04.png'', ''slide-08.png'', ''slide-06.png'']"

definition tenWorld :: world where
  "tenWorld =
     \<lparr>presentationsT = [\<lparr>p_id = ''p1'', p_name = ''deck.pptx'', p_submitted = False\<rparr>],
      slidesT = [], annotationsT = [], sqliteInput = [], sqliteOutput = [], dbScript = [],
      uuidCounter = 0,
      fsFiles = map (\<lambda>f. (pathJoin ''/app/uploads/p1/images'' f, \<lparr>fileBytes = f, fileZip = None\<rparr>)) tenListing,
      fsDirs = [''/app/uploads/p1/images''], cwd = ''/app'', shell = noTools\<rparr>"

text \<open>
  Slide markup as a sequence of text runs, each with the markup that precedes it, and the
  markup after the last run; markup between runs holds no opening text tag. The reading of
  the text-extraction claim that keeps every run but the first: over the texts of the runs,
  the title is the first and the content the others that are not blank.
\<close>

definition textRun :: "string \<Rightarrow> string" where
  "textRun t = ''<a:t>'' @ t @ ''</a:t>''"

fun noTextRun :: "string \<Rightarrow> bool" where
  "noTextRun [] = True"
| "noTextRun (c # cs) = (\<not> startsWith ''<a:t>'' (c # cs) \<and> noTextRun cs)"

definition slideMarkup :: "(string \<times> string) list \<Rightarrow> string \<Rightarrow> string" where
  "slideMarkup runs rest = concat (map (\<lambda>(before, t). before @ textRun t) runs) @ rest"

definition claimedExtractText :: "string list \<Rightarrow> slideText" where
  "claimedExtractText runs =
     \<lparr>textTitle = hd runs, textContent = filter (\<lambda>t. length (trim t) > 0) (tl runs)\<rparr>"

section \<open>Basic facts about the effects\<close>

lemma dbStatement_healthy:
  "dbScript w = [] \<Longrightarrow> dbStatement f w = (case f w of (x, w') \<Rightarrow> (Inr x, w'))"
  by (simp add: dbStatement_def)

lemmas io_defs = io_bind_def io_return_def io_throw_def io_try_def

lemmas str_defs = startsWith_def endsWith_def toLowerCase_def lowerChar_def isDigit_def less_eq_char_def
  matchDigitsHere_def isSlideXml_def

lemmas store_defs = saveSlide_def getPresentation_def sqlite_insertSlide_def dbStatement_def find_first_def
  createAndSavePlaceholder_def uuidv4_def

lemmas fs_defs = existsSync_def mkdirSync_def readdirSync_def readFileSync_def unlinkSync_def renameSync_def
  execPromise_def getCwd_def AdmZip_def ensureDir_def pathJoin_def

lemma uuidv4_eq:
  "uuidv4 w = (Inr (''uuid-'' @ natToString (uuidCounter w)), w\<lparr>uuidCounter := Suc (uuidCounter w)\<rparr>)"
  by (simp add: uuidv4_def)

lemma saveSlide_healthy:
  assumes "dbScript w = []"
  shows "\<exists>w'. saveSlide pid n sid img w = (Inr (), w')
           \<and> slidesT w' = slidesT w @ [\<lparr>s_presentation_id = pid, s_slide_id = sid, s_slide_number = n, s_image = img\<rparr>]
           \<and> dbScript w' = [] \<and> fsFiles w' = fsFiles w"
  using assms
  by (auto simp: saveSlide_def getPresentation_def sqlite_insertSlide_def io_bind_def io_try_def io_return_def
        dbStatement_healthy split: option.splits)

lemma createAndSavePlaceholder_healthy:
  assumes "dbScript w = []"
  shows "\<exists>w' sid. createAndSavePlaceholder pid n t w = (Inr (), w')
           \<and> slidesT w' = slidesT w @ [\<lparr>s_presentation_id = pid, s_slide_id = sid, s_slide_number = n,
                                          s_image = createPlaceholderImage n t\<rparr>]
           \<and> dbScript w' = [] \<and> fsFiles w' = fsFiles w"
proof -
  let ?w1 = "w\<lparr>uuidCounter := Suc (uuidCounter w)\<rparr>"
  have "dbScript ?w1 = []" using assms by simp
  from saveSlide_healthy [OF this, of pid n "''uuid-'' @ natToString (uuidCounter w)" "createPlaceholderImage n t"]
  show ?thesis
    by (auto simp: createAndSavePlaceholder_def io_bind_def uuidv4_eq)
qed

lemma placeholdersFrom_healthy:
  "dbScript w = [] \<Longrightarrow>
   \<exists>w'. placeholdersFrom pid i t w = (Inr (), w')
      \<and> map s_slide_number (slidesT w') = map s_slide_number (slidesT w) @ [i..t]
      \<and> map s_image (slidesT w') = map s_image (slidesT w) @ map (\<lambda>j. createPlaceholderImage j t) [i..t]
      \<and> map s_presentation_id (slidesT w') = map s_presentation_id (slidesT w) @ map (\<lambda>j. pid) [i..t]
      \<and> dbScript w' = [] \<and> fsFiles w' = fsFiles w"
proof (induction pid i t arbitrary: w rule: placeholdersFrom.induct)
  case (1 pid i t)
  show ?case
  proof (cases "i \<le> t")
    case False
    with "1.prems" show ?thesis
      by (subst placeholdersFrom.simps) (simp add: io_return_def)
  next
    case True
    from createAndSavePlaceholder_healthy [OF "1.prems", of pid i t]
    obtain w1 sid where s: "createAndSavePlaceholder pid i t w = (Inr (), w1)"
      and r: "slidesT w1 = slidesT w @ [\<lparr>s_presentation_id = pid, s_slide_id = sid, s_slide_number = i,
                                          s_image = createPlaceholderImage i t\<rparr>]"
      and h: "dbScript w1 = []" and f: "fsFiles w1 = fsFiles w"
      by blast
    from "1.IH" [OF True h]
    obtain w' where
      "placeholdersFrom pid (i + 1) t w1 = (Inr (), w')"
      "map s_slide_number (slidesT w') = map s_slide_number (slidesT w1) @ [i + 1..t]"
      "map s_image (slidesT w') = map s_image (slidesT w1) @ map (\<lambda>j. createPlaceholderImage j t) [i + 1..t]"
      "map s_presentation_id (slidesT w') = map s_presentation_id (slidesT w1) @ map (\<lambda>j. pid) [i + 1..t]"
      "dbScript w' = []" "fsFiles w' = fsFiles w1"
      by blast
    with True s r f show ?thesis
      by (subst placeholdersFrom.simps) (simp add: io_bind_def upto_rec1 [of i t])
  qed
qed

lemma AdmZip_unchanged: "AdmZip p w = (r, w') \<Longrightarrow> w' = w"
  by (auto simp: AdmZip_def split: option.splits)

lemma AdmZip_files: "fsFiles w' = fsFiles w \<Longrightarrow> fst (AdmZip p w') = fst (AdmZip p w)"
  by (auto simp: AdmZip_def split: option.splits)

lemma isSlideXml_Nil: "\<not> isSlideXml []"
  by (simp add: isSlideXml_def matchDigitsHere_def startsWith_def)

lemma slideEntries_filter:
  "filter (\<lambda>entry. entryName entry \<noteq> [] \<and> isSlideXml (entryName entry)) entries
     = filter (\<lambda>entry. isSlideXml (entryName entry)) entries"
  by (rule filter_cong) (auto simp: isSlideXml_Nil)

lemma createFallbackSlides_healthy:
  assumes "dbScript w = []"
  shows "\<exists>w'. createFallbackSlides pid filePath w = (Inr (), w')
      \<and> map s_slide_number (slidesT w') = map s_slide_number (slidesT w) @ [1..fallbackCount filePath w]
      \<and> map s_image (slidesT w') = map s_image (slidesT w)
            @ map (\<lambda>j. createPlaceholderImage j (fallbackCount filePath w)) [1..fallbackCount filePath w]
      \<and> dbScript w' = [] \<and> fsFiles w' = fsFiles w"
proof -
  obtain r w1 where z: "AdmZip filePath w = (r, w1)" by (cases "AdmZip filePath w")
  then have w1: "w1 = w" by (rule AdmZip_unchanged)
  show ?thesis
  proof (cases r)
    case (Inl err)
    with z w1 placeholdersFrom_healthy [OF assms, of pid 1 10] show ?thesis
      by (auto simp: createFallbackSlides_def fallbackCount_def io_try_def io_bind_def)
  next
    case (Inr entries)
    let ?n = "if length (filter (\<lambda>entry. isSlideXml (entryName entry)) entries) > 0
              then int (length (filter (\<lambda>entry. isSlideXml (entryName entry)) entries)) else 10"
    from Inr z w1 placeholdersFrom_healthy [OF assms, of pid 1 ?n] show ?thesis
      by (auto simp: createFallbackSlides_def fallbackCount_def io_try_def io_bind_def Let_def)
  qed
qed

lemma getData_cases:
  "getData e w = (case entryData e of None \<Rightarrow> (Inl (Error ''Invalid entry data''), w) | Some d \<Rightarrow> (Inr d, w))"
  by (simp add: getData_def io_throw_def io_return_def split: option.splits)

lemma readAsText_readable: "readable z n \<Longrightarrow> \<exists>t. readAsText z n w = (Inr t, w)"
  by (auto simp: readable_def readAsText_def getData_cases io_return_def split: option.splits)

lemma readAsText_unreadable: "\<not> readable z n \<Longrightarrow> \<exists>e. readAsText z n w = (Inl e, w)"
  by (auto simp: readable_def readAsText_def getData_cases io_return_def split: option.splits)

lemma uuid0: "natToString 0 = ''0''" "natToString (Suc 0) = ''1''" "natToString (Suc (Suc 0)) = ''2''"
  by code_simp+

text \<open>An integer below \<open>2^53\<close> is a double: \<open>parseInt\<close> returns it as it is written.\<close>

lemma bitLength_le: "n < 2 ^ k \<Longrightarrow> bitLength n \<le> k"
proof (induction k arbitrary: n)
  case 0
  then show ?case by (simp add: bitLength.simps)
next
  case (Suc k)
  show ?case
  proof (cases "n = 0")
    case True
    then show ?thesis by (simp add: bitLength.simps)
  next
    case False
    from Suc.prems have "n div 2 < 2 ^ k" by simp
    then have "bitLength (n div 2) \<le> k" by (rule Suc.IH)
    with False show ?thesis by (subst bitLength.simps) simp
  qed
qed

lemma roundToDouble_small: "n < 2 ^ 53 \<Longrightarrow> roundToDouble n = n"
  using bitLength_le [of n 53] by (simp add: roundToDouble_def)

lemma toNumber_small:
  assumes "0 \<le> v" and "v < 2 ^ 53"
  shows "toNumber v = Finite v"
proof -
  have n: "nat \<bar>v\<bar> < 2 ^ 53" using assms by (simp add: nat_less_iff)
  then have "bitLength (nat \<bar>v\<bar>) \<le> 53" by (rule bitLength_le)
  with n assms(1) show ?thesis by (simp add: toNumber_def roundToDouble_small)
qed

lemma toNumber_nonneg: "0 \<le> v \<Longrightarrow> Finite 0 \<le> toNumber v"
  by (simp add: toNumber_def less_eq_number_def)

section \<open>The slide-count detector\<close>

text \<open>
  \<open>getSlideCount\<close> returns a number for every path and every world, never an
  exception, and leaves the world as it was. The number is 10 for a path that does not end
  in \<open>.pptx\<close> (in any letter case) and for a file the archive reader cannot open;
  otherwise the number of entries whose name matches the slide-XML pattern when there is
  one; otherwise the number of matches of \<open><p:sldId\<close> in \<open>ppt/presentation.xml\<close>
  when that entry exists, can be read and has a match; otherwise 10. It is positive.
\<close>

lemma getSlideCount_cascade:
  "\<exists>n. getSlideCount filePath w = (Inr n, w) \<and> 0 < n \<and>
     n = (if \<not> endsWith ''.pptx'' (toLowerCase filePath) then 10
          else case fst (AdmZip filePath w) of
                 Inl err \<Rightarrow> 10
               | Inr entries \<Rightarrow>
                   if filter (\<lambda>entry. isSlideXml (entryName entry)) entries \<noteq> []
                   then int (length (filter (\<lambda>entry. isSlideXml (entryName entry)) entries))
                   else (case getEntry entries ''ppt/presentation.xml'' of
                           None \<Rightarrow> 10
                         | Some e \<Rightarrow>
                             (case entryData e of
                                None \<Rightarrow> 10
                              | Some text \<Rightarrow>
                                  if countMatches ''<p:sldId'' text > 0
                                  then int (countMatches ''<p:sldId'' text) else 10)))"
proof (cases "endsWith ''.pptx'' (toLowerCase filePath)")
  case False
  then show ?thesis by (simp add: getSlideCount_def io_return_def)
next
  case True
  have same: "filter (\<lambda>entry. entryName entry \<noteq> [] \<and> isSlideXml (entryName entry)) entries
              = filter (\<lambda>entry. isSlideXml (entryName entry)) entries" for entries :: "zipEntry list"
    by (rule filter_cong) (auto simp: isSlideXml_Nil)
  obtain r w' where z: "AdmZip filePath w = (r, w')" by (cases "AdmZip filePath w")
  then have w': "w' = w" by (rule AdmZip_unchanged)
  show ?thesis
  proof (cases r)
    case (Inl err)
    with True z w' show ?thesis
      by (simp add: getSlideCount_def io_try_def io_bind_def io_return_def)
  next
    case (Inr entries)
    with True z w' show ?thesis
      by (auto simp: getSlideCount_def io_try_def io_bind_def io_return_def io_throw_def Let_def same
            readAsText_def getData_def split: option.splits)
  qed
qed

lemma getSlideCount_examples:
  "getSlideCount ''/app/uploads/deck.pptx'' uploadWorld = (Inr 2, uploadWorld)
   \<and> getSlideCount ''/app/uploads/missing.pptx'' uploadWorld = (Inr 10, uploadWorld)
   \<and> getSlideCount ''/app/uploads/deck.ppt'' uploadWorld = (Inr 10, uploadWorld)"
  using getSlideCount_cascade [of "''/app/uploads/deck.pptx''" uploadWorld]
        getSlideCount_cascade [of "''/app/uploads/missing.pptx''" uploadWorld]
        getSlideCount_cascade [of "''/app/uploads/deck.ppt''" uploadWorld]
  by (simp add: str_defs AdmZip_def uploadWorld_def uploadedFiles_def deckEntries_def getEntry_def find_first_def)

text \<open>
  The pattern \<open>/<p:sldId/g\<close> has no end: it matches the start tag of every slide id and
  that of the list around them, \<open><p:sldIdLst\<close>.
\<close>

lemma countMatches_skip:
  "CHR ''<'' \<notin> set s \<Longrightarrow> countMatches ''<p:sldId'' (s @ t) = countMatches ''<p:sldId'' t"
  by (induction s) (auto simp: startsWith_def)

lemma specSlideIdMarkers_skip:
  "CHR ''<'' \<notin> set s \<Longrightarrow> specSlideIdMarkers (s @ t) = specSlideIdMarkers t"
  by (induction s) (auto simp: startsWith_def)

lemma countMatches_slide_id:
  assumes "CHR ''<'' \<notin> set a"
  shows "countMatches ''<p:sldId'' (''<p:sldId'' @ a @ ''/>'' @ t) = Suc (countMatches ''<p:sldId'' t)"
proof -
  have "CHR ''<'' \<notin> set (a @ ''/>'')" using assms by simp
  from countMatches_skip [OF this, of t] show ?thesis by (simp add: startsWith_def)
qed

lemma specSlideIdMarkers_slide_id:
  assumes "attributeText a"
  shows "specSlideIdMarkers (''<p:sldId'' @ a @ ''/>'' @ t) = Suc (specSlideIdMarkers t)"
proof -
  have "CHR ''<'' \<notin> set (''p:sldId'' @ a @ ''/>'')" using assms by (simp add: attributeText_def)
  from specSlideIdMarkers_skip [OF this, of t]
  have "specSlideIdMarkers (''p:sldId'' @ a @ ''/>'' @ t) = specSlideIdMarkers t" by simp
  moreover have "case a @ ''/>'' @ t of [] \<Rightarrow> True | d # ds \<Rightarrow> \<not> isNameChar d"
    using assms by (cases a) (auto simp: attributeText_def isNameChar_def isDigit_def less_eq_char_def)
  ultimately show ?thesis by (simp add: startsWith_def)
qed

lemma countMatches_slide_ids:
  "list_all attributeText attrs \<Longrightarrow>
   countMatches ''<p:sldId'' (concat (map (\<lambda>a. ''<p:sldId'' @ a @ ''/>'') attrs) @ t)
     = length attrs + countMatches ''<p:sldId'' t"
proof (induction attrs)
  case Nil
  then show ?case by simp
next
  case (Cons a attrs)
  then have "CHR ''<'' \<notin> set a" by (simp add: attributeText_def)
  from countMatches_slide_id [OF this, of "concat (map (\<lambda>a. ''<p:sldId'' @ a @ ''/>'') attrs) @ t"] Cons
  show ?case by simp
qed

lemma specSlideIdMarkers_slide_ids:
  "list_all attributeText attrs \<Longrightarrow>
   specSlideIdMarkers (concat (map (\<lambda>a. ''<p:sldId'' @ a @ ''/>'') attrs) @ t)
     = length attrs + specSlideIdMarkers t"
proof (induction attrs)
  case Nil
  then show ?case by simp
next
  case (Cons a attrs)
  then have "attributeText a" by simp
  from specSlideIdMarkers_slide_id [OF this, of "concat (map (\<lambda>a. ''<p:sldId'' @ a @ ''/>'') attrs) @ t"] Cons
  show ?case by simp
qed

lemma countMatches_slideIdList:
  assumes "list_all attributeText attrs"
  shows "countMatches ''<p:sldId'' (slideIdList attrs) = Suc (length attrs)"
proof -
  have e: "countMatches ''<p:sldId'' ''</p:sldIdLst>'' = 0" by (simp add: startsWith_def)
  have "countMatches ''<p:sldId'' (slideIdList attrs)
        = Suc (countMatches ''<p:sldId'' (''Lst>'' @ concat (map (\<lambda>a. ''<p:sldId'' @ a @ ''/>'') attrs) @ ''</p:sldIdLst>''))"
    by (simp add: slideIdList_def startsWith_def)
  also have "\<dots> = Suc (countMatches ''<p:sldId'' (concat (map (\<lambda>a. ''<p:sldId'' @ a @ ''/>'') attrs) @ ''</p:sldIdLst>''))"
    by (subst countMatches_skip) simp_all
  finally show ?thesis using countMatches_slide_ids [OF assms, of "''</p:sldIdLst>''"] e by simp
qed

lemma specSlideIdMarkers_slideIdList:
  assumes "list_all attributeText attrs"
  shows "specSlideIdMarkers (slideIdList attrs) = length attrs"
proof -
  have e: "specSlideIdMarkers ''</p:sldIdLst>'' = 0" by (simp add: startsWith_def)
  have "specSlideIdMarkers (slideIdList attrs)
        = specSlideIdMarkers (''p:sldIdLst>'' @ concat (map (\<lambda>a. ''<p:sldId'' @ a @ ''/>'') attrs) @ ''</p:sldIdLst>'')"
    by (simp add: slideIdList_def startsWith_def isNameChar_def less_eq_char_def)
  also have "\<dots> = specSlideIdMarkers (concat (map (\<lambda>a. ''<p:sldId'' @ a @ ''/>'') attrs) @ ''</p:sldIdLst>'')"
    by (subst specSlideIdMarkers_skip) simp_all
  finally show ?thesis using specSlideIdMarkers_slide_ids [OF assms, of "''</p:sldIdLst>''"] e by simp
qed

lemma countMatches_empty_list:
  "countMatches ''<p:sldId'' ''<p:sldIdLst/>'' = 1 \<and> specSlideIdMarkers ''<p:sldIdLst/>'' = 0"
  by (simp add: startsWith_def isNameChar_def less_eq_char_def)

text \<open>
  Claim C5. \<open>getSlideCount\<close> never throws and returns a positive number, and the count
  of the slide entries and the default 10 are as the specification has them; the count
  taken from the manifest is not. For an archive without slide entries whose manifest
  holds the list of \<open>n\<close> slide ids, the manifest has \<open>n\<close> slide-id markers and
  \<open>getSlideCount\<close> returns \<open>n + 1\<close>: one more than the markers, and 1 instead of the
  default 10 when the list is empty.
\<close>

theorem getSlideCount_counts_list_tag:
  assumes "endsWith ''.pptx'' (toLowerCase filePath)"
      and "fst (AdmZip filePath w) = Inr entries"
      and "filter (\<lambda>entry. isSlideXml (entryName entry)) entries = []"
      and "getEntry entries ''ppt/presentation.xml'' = Some e"
      and "entryData e = Some (slideIdList attrs)"
      and "list_all attributeText attrs"
  shows "specSlideIdMarkers (slideIdList attrs) = length attrs
       \<and> getSlideCount filePath w = (Inr (int (length attrs) + 1), w)"
proof -
  from getSlideCount_cascade [of filePath w] assms(1-5)
  have "getSlideCount filePath w = (Inr (int (countMatches ''<p:sldId'' (slideIdList attrs))), w)"
    by (auto simp: countMatches_slideIdList [OF assms(6)])
  then show ?thesis
    by (simp add: countMatches_slideIdList [OF assms(6)] specSlideIdMarkers_slideIdList [OF assms(6)])
qed

theorem getSlideCount_counts_list_tag_witness:
  "endsWith ''.pptx'' (toLowerCase ''/app/uploads/empty.pptx'')
   \<and> fst (AdmZip ''/app/uploads/empty.pptx'' uploadWorld) = Inr noSlideEntries
   \<and> filter (\<lambda>entry. isSlideXml (entryName entry)) noSlideEntries = []
   \<and> getEntry noSlideEntries ''ppt/presentation.xml'' = Some (hd noSlideEntries)
   \<and> entryData (hd noSlideEntries) = Some ''<p:sldIdLst><p:sldId/><p:sldId/></p:sldIdLst>''
   \<and> slideIdList [[], []] = ''<p:sldIdLst><p:sldId/><p:sldId/></p:sldIdLst>''
   \<and> list_all attributeText [[], []]
   \<and> specSlideIdMarkers ''<p:sldIdLst><p:sldId/><p:sldId/></p:sldIdLst>'' = 2
   \<and> getSlideCount ''/app/uploads/empty.pptx'' uploadWorld = (Inr 3, uploadWorld)"
proof -
  have l: "slideIdList [[], []] = ''<p:sldIdLst><p:sldId/><p:sldId/></p:sldIdLst>''"
    by (simp add: slideIdList_def)
  have h1: "endsWith ''.pptx'' (toLowerCase ''/app/uploads/empty.pptx'')"
    by (simp add: str_defs)
  have h2: "fst (AdmZip ''/app/uploads/empty.pptx'' uploadWorld) = Inr noSlideEntries"
    by (simp add: AdmZip_def uploadWorld_def uploadedFiles_def str_defs)
  have h3: "filter (\<lambda>entry. isSlideXml (entryName entry)) noSlideEntries = []"
    by (simp add: noSlideEntries_def str_defs)
  have h4: "getEntry noSlideEntries ''ppt/presentation.xml'' = Some (hd noSlideEntries)"
    by (simp add: noSlideEntries_def getEntry_def find_first_def)
  have d: "entryData (hd noSlideEntries) = Some ''<p:sldIdLst><p:sldId/><p:sldId/></p:sldIdLst>''"
    by (simp add: noSlideEntries_def)
  have h5: "entryData (hd noSlideEntries) = Some (slideIdList [[], []])"
    by (simp only: d l)
  have h6: "list_all attributeText [[], []]"
    by (simp add: attributeText_def)
  from getSlideCount_counts_list_tag [OF h1 h2 h3 h4 h5 h6]
  have c1: "specSlideIdMarkers ''<p:sldIdLst><p:sldId/><p:sldId/></p:sldIdLst>'' = 2"
    and c2: "getSlideCount ''/app/uploads/empty.pptx'' uploadWorld = (Inr 3, uploadWorld)"
    by (simp_all only: l, simp_all)
  from h1 h2 h3 h4 d l h6 c1 c2 show ?thesis by (intro conjI)
qed

section \<open>The fallback extractor\<close>

lemma imagesOfRefs_ok: "\<exists>imgs. imagesOfRefs z relsContent refs images w = (Inr imgs, w)"
proof (induction refs arbitrary: images)
  case Nil
  show ?case by (simp add: io_return_def)
next
  case (Cons rId rest)
  show ?case
  proof (cases "matchRelationship rId relsContent")
    case None
    with Cons show ?thesis by simp
  next
    case (Some targetPath)
    show ?thesis
    proof (cases "targetPath = []")
      case True
      with Some Cons show ?thesis by simp
    next
      case False
      let ?mediaPath = "if startsWith ''../'' targetPath then ''ppt/'' @ drop 3 targetPath
                        else ''ppt/slides/'' @ targetPath"
      have "\<exists>imgs. io_try
                     (case getEntry z ?mediaPath of
                        Some imageEntry \<Rightarrow>
                          io_bind (getData imageEntry) (\<lambda>imageData. io_return (images @ [toBase64 imageData]))
                      | None \<Rightarrow> io_return images)
                     (\<lambda>err. io_return images) w = (Inr imgs, w)"
        by (auto simp: io_try_def io_bind_def io_return_def getData_cases split: option.splits)
      then obtain imgs where
        "io_try
           (case getEntry z ?mediaPath of
              Some imageEntry \<Rightarrow>
                io_bind (getData imageEntry) (\<lambda>imageData. io_return (images @ [toBase64 imageData]))
            | None \<Rightarrow> io_return images)
           (\<lambda>err. io_return images) w = (Inr imgs, w)" by blast
      with Some False Cons [of imgs] show ?thesis
        by (simp add: Let_def io_bind_def)
    qed
  qed
qed

lemma imagesOfRels_ok:
  "list_all (\<lambda>entry. readable z (entryName entry)) rels
     \<Longrightarrow> \<exists>imgs. imagesOfRels z refs rels images w = (Inr imgs, w)"
proof (induction rels arbitrary: images)
  case Nil
  show ?case by (simp add: io_return_def)
next
  case (Cons relsEntry rest)
  then have "readable z (entryName relsEntry)" by simp
  then obtain t where t: "readAsText z (entryName relsEntry) w = (Inr t, w)"
    using readAsText_readable by blast
  obtain imgs where i: "imagesOfRefs z t refs images w = (Inr imgs, w)"
    using imagesOfRefs_ok by blast
  from Cons have "\<exists>imgs'. imagesOfRels z refs rest imgs w = (Inr imgs', w)" by simp
  with t i show ?case by (simp add: io_bind_def)
qed

lemma imagesOfRels_fail:
  "\<not> list_all (\<lambda>entry. readable z (entryName entry)) rels
     \<Longrightarrow> \<exists>e. imagesOfRels z refs rels images w = (Inl e, w)"
proof (induction rels arbitrary: images)
  case Nil
  then show ?case by simp
next
  case (Cons relsEntry rest)
  show ?case
  proof (cases "readable z (entryName relsEntry)")
    case False
    then obtain e where "readAsText z (entryName relsEntry) w = (Inl e, w)"
      using readAsText_unreadable by blast
    then show ?thesis by (simp add: io_bind_def)
  next
    case True
    then obtain t where t: "readAsText z (entryName relsEntry) w = (Inr t, w)"
      using readAsText_readable by blast
    obtain imgs where i: "imagesOfRefs z t refs images w = (Inr imgs, w)"
      using imagesOfRefs_ok by blast
    from Cons True have "\<exists>e. imagesOfRels z refs rest imgs w = (Inl e, w)" by simp
    with t i show ?thesis by (simp add: io_bind_def)
  qed
qed

lemma imagesOfMedia_ok: "\<exists>imgs. imagesOfMedia es images w = (Inr imgs, w)"
proof (induction es arbitrary: images)
  case Nil
  show ?case by (simp add: io_return_def)
next
  case (Cons entry rest)
  have "\<exists>imgs. io_try (io_bind (getData entry) (\<lambda>imageData. io_return (images @ [toBase64 imageData])))
                     (\<lambda>err. io_return images) w = (Inr imgs, w)"
    by (auto simp: io_try_def io_bind_def io_return_def getData_cases split: option.splits)
  with Cons show ?case by (auto simp: io_bind_def)
qed

lemma findImages_ok:
  assumes "relsReadable z"
  shows "\<exists>imgs. findImagesInPresentation z refs out w = (Inr imgs, w)"
proof -
  let ?rels = "filter (\<lambda>entry. startsWith ''ppt/slides/_rels/'' (entryName entry) \<and> endsWith ''.rels'' (entryName entry)) z"
  from assms obtain imgs where "imagesOfRels z refs ?rels [] w = (Inr imgs, w)"
    using imagesOfRels_ok [of z ?rels refs "[]" w] by (auto simp: relsReadable_def)
  then show ?thesis
    using imagesOfMedia_ok
    by (auto simp: findImagesInPresentation_def Let_def io_bind_def io_return_def)
qed

lemma findImages_fail:
  assumes "\<not> relsReadable z"
  shows "\<exists>e. findImagesInPresentation z refs out w = (Inl e, w)"
proof -
  let ?rels = "filter (\<lambda>entry. startsWith ''ppt/slides/_rels/'' (entryName entry) \<and> endsWith ''.rels'' (entryName entry)) z"
  from assms obtain e where "imagesOfRels z refs ?rels [] w = (Inl e, w)"
    using imagesOfRels_fail [of z ?rels refs "[]" w] by (auto simp: relsReadable_def)
  then show ?thesis
    by (auto simp: findImagesInPresentation_def Let_def io_bind_def)
qed

lemma renderSlides_step_ok:
  assumes "dbScript w = []" and "extractable z slideXML"
  shows "\<exists>w1 sid img.
           renderSlides z pid out tot i (slideXML # rest) w = renderSlides z pid out tot (Suc i) rest w1
         \<and> slidesT w1 = slidesT w @ [\<lparr>s_presentation_id = pid, s_slide_id = sid, s_slide_number = int i + 1, s_image = img\<rparr>]
         \<and> dbScript w1 = [] \<and> fsFiles w1 = fsFiles w"
proof -
  let ?w0 = "w\<lparr>uuidCounter := Suc (uuidCounter w)\<rparr>"
  let ?sid = "''uuid-'' @ natToString (uuidCounter w)"
  from assms(2) have "readable z (entryName slideXML)" and rr: "relsReadable z"
    by (auto simp: extractable_def)
  then obtain t where t: "readAsText z (entryName slideXML) ?w0 = (Inr t, ?w0)"
    using readAsText_readable [of z "entryName slideXML" ?w0] by blast
  obtain imgs where
    i: "findImagesInPresentation z (extractImageReferencesFromXML t) out ?w0 = (Inr imgs, ?w0)"
    using findImages_ok [OF rr, of "extractImageReferencesFromXML t" out ?w0] by blast
  let ?img = "createRichSlideVisualization (int i + 1) tot (textTitle (extractTextFromSlideXML t))
                (textContent (extractTextFromSlideXML t)) imgs"
  have "dbScript ?w0 = []" using assms(1) by simp
  from saveSlide_healthy [OF this, of pid "int i + 1" ?sid ?img]
  obtain w1 where "saveSlide pid (int i + 1) ?sid ?img ?w0 = (Inr (), w1)"
    "slidesT w1 = slidesT w @ [\<lparr>s_presentation_id = pid, s_slide_id = ?sid, s_slide_number = int i + 1, s_image = ?img\<rparr>]"
    "dbScript w1 = []" "fsFiles w1 = fsFiles w"
    by auto
  with t i show ?thesis
    by (auto simp: Let_def io_bind_def uuidv4_eq)
qed

lemma renderSlides_step_fail:
  assumes "\<not> extractable z slideXML"
  shows "\<exists>e w1. renderSlides z pid out tot i (slideXML # rest) w = (Inl e, w1)
         \<and> slidesT w1 = slidesT w \<and> dbScript w1 = dbScript w \<and> fsFiles w1 = fsFiles w"
proof -
  let ?w0 = "w\<lparr>uuidCounter := Suc (uuidCounter w)\<rparr>"
  show ?thesis
  proof (cases "readable z (entryName slideXML)")
    case False
    then obtain e where "readAsText z (entryName slideXML) ?w0 = (Inl e, ?w0)"
      using readAsText_unreadable [of z "entryName slideXML" ?w0] by blast
    then show ?thesis by (auto simp: Let_def io_bind_def uuidv4_eq)
  next
    case True
    then obtain t where t: "readAsText z (entryName slideXML) ?w0 = (Inr t, ?w0)"
      using readAsText_readable [of z "entryName slideXML" ?w0] by blast
    from True assms have "\<not> relsReadable z" by (simp add: extractable_def)
    then obtain e where
      "findImagesInPresentation z (extractImageReferencesFromXML t) out ?w0 = (Inl e, ?w0)"
      using findImages_fail [of z "extractImageReferencesFromXML t" out ?w0] by blast
    with t show ?thesis by (auto simp: Let_def io_bind_def uuidv4_eq)
  qed
qed

lemma renderSlides_all:
  "dbScript w = [] \<Longrightarrow> list_all (extractable z) xs \<Longrightarrow>
   \<exists>w'. renderSlides z pid out tot i xs w = (Inr (), w')
      \<and> map s_slide_number (slidesT w') = map s_slide_number (slidesT w) @ map int [Suc i..<Suc i + length xs]
      \<and> dbScript w' = [] \<and> fsFiles w' = fsFiles w"
proof (induction xs arbitrary: w i)
  case Nil
  then show ?case by (simp add: io_return_def)
next
  case (Cons x xs)
  from Cons.prems have "extractable z x" by simp
  from renderSlides_step_ok [OF Cons.prems(1) this, of pid out tot i xs]
  obtain w1 sid img where
    s: "renderSlides z pid out tot i (x # xs) w = renderSlides z pid out tot (Suc i) xs w1"
    and r: "slidesT w1 = slidesT w @ [\<lparr>s_presentation_id = pid, s_slide_id = sid, s_slide_number = int i + 1, s_image = img\<rparr>]"
    and h: "dbScript w1 = []" and f: "fsFiles w1 = fsFiles w"
    by blast
  from Cons.prems have "list_all (extractable z) xs" by simp
  from Cons.IH [OF h this, of "Suc i"]
  obtain w' where "renderSlides z pid out tot (Suc i) xs w1 = (Inr (), w')"
    "map s_slide_number (slidesT w') = map s_slide_number (slidesT w1) @ map int [Suc (Suc i)..<Suc (Suc i) + length xs]"
    "dbScript w' = []" "fsFiles w' = fsFiles w1"
    by blast
  with s r f show ?case
    by (auto simp: upt_conv_Cons simp del: renderSlides.simps upt_Suc)
qed

lemma renderSlides_partial:
  "dbScript w = [] \<Longrightarrow> list_all (extractable z) ok \<Longrightarrow> \<not> extractable z bad \<Longrightarrow>
   \<exists>e w'. renderSlides z pid out tot i (ok @ bad # rest) w = (Inl e, w')
      \<and> map s_slide_number (slidesT w') = map s_slide_number (slidesT w) @ map int [Suc i..<Suc i + length ok]
      \<and> dbScript w' = [] \<and> fsFiles w' = fsFiles w"
proof (induction ok arbitrary: w i)
  case Nil
  from renderSlides_step_fail [OF Nil.prems(3), of pid out tot i rest w] Nil.prems(1)
  show ?case by auto
next
  case (Cons x xs)
  from Cons.prems have "extractable z x" by simp
  from renderSlides_step_ok [OF Cons.prems(1) this, of pid out tot i "xs @ bad # rest"]
  obtain w1 sid img where
    s: "renderSlides z pid out tot i (x # xs @ bad # rest) w = renderSlides z pid out tot (Suc i) (xs @ bad # rest) w1"
    and r: "slidesT w1 = slidesT w @ [\<lparr>s_presentation_id = pid, s_slide_id = sid, s_slide_number = int i + 1, s_image = img\<rparr>]"
    and h: "dbScript w1 = []" and f: "fsFiles w1 = fsFiles w"
    by blast
  from Cons.prems have "list_all (extractable z) xs" by simp
  from Cons.IH [OF h this Cons.prems(3), of "Suc i"]
  obtain e w' where "renderSlides z pid out tot (Suc i) (xs @ bad # rest) w1 = (Inl e, w')"
    "map s_slide_number (slidesT w') = map s_slide_number (slidesT w1) @ map int [Suc (Suc i)..<Suc (Suc i) + length xs]"
    "dbScript w' = []" "fsFiles w' = fsFiles w1"
    by blast
  with s r f show ?case
    by (auto simp: upt_conv_Cons simp del: renderSlides.simps upt_Suc)
qed

lemma takeWhile_split:
  "length (takeWhile P xs) < length xs \<Longrightarrow>
   \<exists>bad rest. xs = takeWhile P xs @ bad # rest \<and> \<not> P bad"
proof -
  assume a: "length (takeWhile P xs) < length xs"
  have "dropWhile P xs \<noteq> []"
    using a by (metis append_Nil2 less_irrefl takeWhile_dropWhile_id)
  then obtain bad rest where d: "dropWhile P xs = bad # rest" by (cases "dropWhile P xs") auto
  then have "\<not> P bad" by (metis hd_dropWhile list.sel(1) list.distinct(1))
  moreover have "xs = takeWhile P xs @ bad # rest" using d by (metis takeWhile_dropWhile_id)
  ultimately show ?thesis by blast
qed

lemma takeWhile_all:
  assumes "length (takeWhile P xs) = length xs"
  shows "list_all P xs"
proof -
  have "length (takeWhile P xs) + length (dropWhile P xs) = length xs"
    by (metis length_append takeWhile_dropWhile_id)
  with assms have "dropWhile P xs = []" by simp
  then have "takeWhile P xs = xs" by (metis append_Nil2 takeWhile_dropWhile_id)
  then show ?thesis by (simp add: takeWhile_eq_all_conv list_all_iff)
qed

lemma brokenEntries_sorted:
  "sort_key slideXmlNumber (filter (\<lambda>entry. isSlideXml (entryName entry)) brokenEntries)
   = [\<lparr>entryName = ''ppt/slides/slide1.xml'', entryData = Some ''<a:t>First</a:t><a:t>Body</a:t>''\<rparr>,
      \<lparr>entryName = ''ppt/slides/slide2.xml'', entryData = None\<rparr>]"
  by (simp add: brokenEntries_def str_defs slideXmlNumber_def parseInt_def Let_def digitsToNat_def
        digitValue_def isWhiteSpace_def toNumber_small less_eq_number_def)

lemma deckEntries_sorted:
  "sort_key slideXmlNumber (filter (\<lambda>entry. isSlideXml (entryName entry)) deckEntries)
   = [\<lparr>entryName = ''ppt/slides/slide1.xml'', entryData = Some ''<a:t>First</a:t><a:t>Body</a:t>''\<rparr>,
      \<lparr>entryName = ''ppt/slides/slide2.xml'', entryData = Some ''<a:t>Second</a:t>''\<rparr>]"
  by (simp add: deckEntries_def str_defs slideXmlNumber_def parseInt_def Let_def digitsToNat_def
        digitValue_def isWhiteSpace_def toNumber_small less_eq_number_def)

lemma extract_first:
  "extractTextFromSlideXML ''<a:t>First</a:t><a:t>Body</a:t>'' = \<lparr>textTitle = ''First'', textContent = [''Body'']\<rparr>"
  by code_simp

lemma extract_second:
  "extractTextFromSlideXML ''<a:t>Second</a:t>'' = \<lparr>textTitle = ''Second'', textContent = []\<rparr>"
  by code_simp

lemma refs_first: "extractImageReferencesFromXML ''<a:t>First</a:t><a:t>Body</a:t>'' = []"
  by code_simp

lemma refs_second: "extractImageReferencesFromXML ''<a:t>Second</a:t>'' = []"
  by code_simp

lemma images_broken: "findImagesInPresentation brokenEntries [] out w = (Inr [], w)"
  by (simp add: findImagesInPresentation_def brokenEntries_def str_defs io_defs)

lemma images_deck: "findImagesInPresentation deckEntries [] out w = (Inr [], w)"
  by (simp add: findImagesInPresentation_def deckEntries_def str_defs io_defs)

lemma pptx_paths:
  "endsWith ''.pptx'' (toLowerCase ''/app/uploads/deck.pptx'')"
  "endsWith ''.pptx'' (toLowerCase ''/app/uploads/broken.pptx'')"
  "endsWith ''.pptx'' (toLowerCase ''/app/uploads/empty.pptx'')"
  by (simp_all add: str_defs)

text \<open>
  Claim C4. When the file is a \<open>.pptx\<close> archive that opens and holds no slide-XML entry,
  and the store accepts the statement, \<open>processSlides\<close> returns normally having added
  exactly one slide to the table: number 1, with the placeholder image for slide 1 of
  \<open>max(count, 1)\<close>, where \<open>count\<close> is the total the caller passed (the slide-count
  detector's result; 0 when none was passed). Nothing else is added.
\<close>

theorem processSlides_no_slide_entries:
  assumes "dbScript w = []"
      and "endsWith ''.pptx'' (toLowerCase filePath)"
      and "AdmZip filePath w = (Inr entries, w)"
      and "filter (\<lambda>entry. isSlideXml (entryName entry)) entries = []"
  shows "\<exists>w' slideId.
           processSlides filePath presentationId outputDir totalSlides w = (Inr (), w')
         \<and> slidesT w' = slidesT w @
              [\<lparr>s_presentation_id = presentationId, s_slide_id = slideId, s_slide_number = 1,
                s_image = createPlaceholderImage 1 (max (case totalSlides of None \<Rightarrow> 0 | Some t \<Rightarrow> t) 1)\<rparr>]"
proof -
  let ?total = "max (case totalSlides of None \<Rightarrow> 0 | Some t \<Rightarrow> t) 1"
  from createAndSavePlaceholder_healthy [OF assms(1), of presentationId 1 ?total]
  obtain w' sid where
    "createAndSavePlaceholder presentationId 1 ?total w = (Inr (), w')"
    "slidesT w' = slidesT w @ [\<lparr>s_presentation_id = presentationId, s_slide_id = sid, s_slide_number = 1,
                                 s_image = createPlaceholderImage 1 ?total\<rparr>]"
    by blast
  moreover have "(if (case totalSlides of None \<Rightarrow> 0 | Some t \<Rightarrow> if t \<noteq> 0 then t else 0) > 0
                  then (case totalSlides of None \<Rightarrow> 0 | Some t \<Rightarrow> if t \<noteq> 0 then t else 0) else 1) = ?total"
    by (auto split: option.splits)
  ultimately show ?thesis
    using assms(2-4)
    by (auto simp: processSlides_def io_try_def io_bind_def Let_def slideEntries_filter split: option.splits)
qed

theorem processSlides_no_slide_entries_witness:
  "dbScript uploadWorld = []
   \<and> endsWith ''.pptx'' (toLowerCase ''/app/uploads/empty.pptx'')
   \<and> AdmZip ''/app/uploads/empty.pptx'' uploadWorld = (Inr noSlideEntries, uploadWorld)
   \<and> filter (\<lambda>entry. isSlideXml (entryName entry)) noSlideEntries = []
   \<and> (\<exists>w' slideId.
         processSlides ''/app/uploads/empty.pptx'' ''p1'' ''/app/uploads/p1'' (Some 3) uploadWorld = (Inr (), w')
       \<and> slidesT w' = [\<lparr>s_presentation_id = ''p1'', s_slide_id = slideId, s_slide_number = 1,
                          s_image = createPlaceholderImage 1 3\<rparr>])"
proof -
  have h1: "dbScript uploadWorld = []" by (simp add: uploadWorld_def)
  have h2: "endsWith ''.pptx'' (toLowerCase ''/app/uploads/empty.pptx'')" by (rule pptx_paths)
  have h3: "AdmZip ''/app/uploads/empty.pptx'' uploadWorld = (Inr noSlideEntries, uploadWorld)"
    by (simp add: AdmZip_def uploadWorld_def uploadedFiles_def)
  have h4: "filter (\<lambda>entry. isSlideXml (entryName entry)) noSlideEntries = []"
    by (simp add: noSlideEntries_def str_defs)
  have s: "slidesT uploadWorld = []" by (simp add: uploadWorld_def)
  from processSlides_no_slide_entries [OF h1 h2 h3 h4, of "''p1''" "''/app/uploads/p1''" "Some 3"]
  have "\<exists>w' slideId.
         processSlides ''/app/uploads/empty.pptx'' ''p1'' ''/app/uploads/p1'' (Some 3) uploadWorld = (Inr (), w')
       \<and> slidesT w' = [\<lparr>s_presentation_id = ''p1'', s_slide_id = slideId, s_slide_number = 1,
                          s_image = createPlaceholderImage 1 3\<rparr>]"
    by (simp add: s)
  with h1 h2 h3 h4 show ?thesis by (intro conjI)
qed

lemma processSlides_numbers:
  assumes "dbScript w = []"
      and "endsWith ''.pptx'' (toLowerCase filePath)"
      and "AdmZip filePath w = (Inr entries, w)"
      and "slideXMLs = sort_key slideXmlNumber (filter (\<lambda>entry. isSlideXml (entryName entry)) entries)"
      and "slideXMLs \<noteq> []"
      and "k = length (takeWhile (extractable entries) slideXMLs)"
  shows "\<exists>w'. processSlides filePath presentationId outputDir totalSlides w = (Inr (), w')
       \<and> map s_slide_number (slidesT w') = map s_slide_number (slidesT w) @
            (if k = length slideXMLs then map int [1..<Suc k]
             else map int [1..<Suc k] @ [1..int (length slideXMLs)])
       \<and> (k < length slideXMLs \<longrightarrow>
            map s_image (drop (length (slidesT w) + k) (slidesT w'))
              = map (\<lambda>j. createPlaceholderImage j (int (length slideXMLs))) [1..int (length slideXMLs)])"
proof -
  let ?n = "length slideXMLs"
  have n: "length (filter (\<lambda>entry. isSlideXml (entryName entry)) entries) = ?n"
    by (simp add: assms(4))
  have body: "processSlides filePath presentationId outputDir totalSlides w
      = io_try (renderSlides entries presentationId outputDir
                  (case totalSlides of Some t \<Rightarrow> if t \<noteq> 0 then t else int ?n | None \<Rightarrow> int ?n) 0 slideXMLs)
               (\<lambda>err. createFallbackSlides presentationId filePath) w"
    using assms(2,3,5) unfolding assms(4)
    by (simp add: processSlides_def io_try_def io_bind_def Let_def slideEntries_filter)
  let ?tot = "case totalSlides of Some t \<Rightarrow> if t \<noteq> 0 then t else int ?n | None \<Rightarrow> int ?n"
  show ?thesis
  proof (cases "k = ?n")
    case True
    then have "list_all (extractable entries) slideXMLs"
      using assms(6) takeWhile_all [of "extractable entries" slideXMLs] by simp
    from renderSlides_all [OF assms(1) this, of presentationId outputDir ?tot 0]
    obtain w' where "renderSlides entries presentationId outputDir ?tot 0 slideXMLs w = (Inr (), w')"
      "map s_slide_number (slidesT w') = map s_slide_number (slidesT w) @ map int [Suc 0..<Suc 0 + ?n]"
      by blast
    with True show ?thesis by (simp add: body io_try_def)
  next
    case False
    have "k \<le> ?n" using assms(6) by (simp add: length_takeWhile_le)
    with False have lt: "k < ?n" by simp
    then obtain bad rest where
      split: "slideXMLs = takeWhile (extractable entries) slideXMLs @ bad # rest"
      and bad: "\<not> extractable entries bad"
      using takeWhile_split [of "extractable entries" slideXMLs] assms(6) by blast
    have ok: "list_all (extractable entries) (takeWhile (extractable entries) slideXMLs)"
      by (simp add: list_all_iff) (meson set_takeWhileD)
    from renderSlides_partial [OF assms(1) ok bad, of presentationId outputDir ?tot 0 rest]
    obtain e w1 where
      r: "renderSlides entries presentationId outputDir ?tot 0 slideXMLs w = (Inl e, w1)"
      and nums: "map s_slide_number (slidesT w1) = map s_slide_number (slidesT w) @ map int [Suc 0..<Suc 0 + k]"
      and h: "dbScript w1 = []" and f: "fsFiles w1 = fsFiles w"
      using split assms(6) by auto
    have len: "length (slidesT w1) = length (slidesT w) + k"
      using arg_cong [OF nums, of length] by simp
    have "fst (AdmZip filePath w1) = Inr entries"
      using AdmZip_files [OF f, of filePath] assms(3) by simp
    then have fc: "fallbackCount filePath w1 = int ?n"
      using assms(5) by (simp add: fallbackCount_def n)
    from createFallbackSlides_healthy [OF h, of presentationId filePath]
    obtain w' where
      c: "createFallbackSlides presentationId filePath w1 = (Inr (), w')"
      and nums': "map s_slide_number (slidesT w') = map s_slide_number (slidesT w1) @ [1..int ?n]"
      and imgs: "map s_image (slidesT w') = map s_image (slidesT w1)
                   @ map (\<lambda>j. createPlaceholderImage j (int ?n)) [1..int ?n]"
      by (auto simp: fc)
    have "map s_image (drop (length (slidesT w) + k) (slidesT w'))
            = drop (length (slidesT w1)) (map s_image (slidesT w'))"
      by (simp add: drop_map len)
    also have "\<dots> = map (\<lambda>j. createPlaceholderImage j (int ?n)) [1..int ?n]"
      by (simp add: imgs)
    finally have placeholders:
      "map s_image (drop (length (slidesT w) + k) (slidesT w'))
         = map (\<lambda>j. createPlaceholderImage j (int ?n)) [1..int ?n]" .
    from r c False nums nums' placeholders show ?thesis
      by (simp add: body io_try_def)
  qed
qed

lemma keepsSlides_iff: "keepsSlides w w' \<longleftrightarrow> (\<exists>added. slidesT w' = slidesT w @ added)"
proof
  assume "keepsSlides w w'"
  then have "slidesT w' = slidesT w @ drop (length (slidesT w)) (slidesT w')"
    unfolding keepsSlides_def by (metis append_take_drop_id)
  then show "\<exists>added. slidesT w' = slidesT w @ added" ..
next
  assume "\<exists>added. slidesT w' = slidesT w @ added"
  then show "keepsSlides w w'" by (auto simp: keepsSlides_def)
qed

lemma keepsSlides_refl: "keepsSlides w w"
  by (simp add: keepsSlides_def)

lemma keepsSlides_trans: "keepsSlides w w1 \<Longrightarrow> keepsSlides w1 w2 \<Longrightarrow> keepsSlides w w2"
  by (auto simp: keepsSlides_iff)

lemma keepsSlides_same: "slidesT w' = slidesT w \<Longrightarrow> keepsSlides w w'"
  by (simp add: keepsSlides_def)

lemma keepsSlides_cong: "slidesT v = slidesT w \<Longrightarrow> keepsSlides v w' \<Longrightarrow> keepsSlides w w'"
  by (simp add: keepsSlides_def)

lemma keeping_return: "keeping (io_return x)"
  by (simp add: keeping_def io_return_def keepsSlides_refl)

lemma keeping_throw: "keeping (io_throw e)"
  by (simp add: keeping_def io_throw_def keepsSlides_refl)

lemma keeping_bind:
  assumes "keeping m" and "\<And>x. keeping (f x)"
  shows "keeping (io_bind m f)"
  unfolding keeping_def
proof
  fix w
  obtain r w1 where m: "m w = (r, w1)" by (cases "m w")
  with assms(1) have k1: "keepsSlides w w1" by (auto simp: keeping_def dest: spec [of _ w])
  show "keepsSlides w (snd (io_bind m f w))"
  proof (cases r)
    case (Inl e)
    with m k1 show ?thesis by (simp add: io_bind_def)
  next
    case (Inr x)
    from assms(2) [of x] have "keepsSlides w1 (snd (f x w1))" by (simp add: keeping_def)
    with k1 have "keepsSlides w (snd (f x w1))" by (rule keepsSlides_trans)
    with m Inr show ?thesis by (simp add: io_bind_def)
  qed
qed

lemma keeping_try:
  assumes "keeping m" and "\<And>e. keeping (h e)"
  shows "keeping (io_try m h)"
  unfolding keeping_def
proof
  fix w
  obtain r w1 where m: "m w = (r, w1)" by (cases "m w")
  with assms(1) have k1: "keepsSlides w w1" by (auto simp: keeping_def dest: spec [of _ w])
  show "keepsSlides w (snd (io_try m h w))"
  proof (cases r)
    case (Inr x)
    with m k1 show ?thesis by (simp add: io_try_def)
  next
    case (Inl e)
    from assms(2) [of e] have "keepsSlides w1 (snd (h e w1))" by (simp add: keeping_def)
    with k1 have "keepsSlides w (snd (h e w1))" by (rule keepsSlides_trans)
    with m Inl show ?thesis by (simp add: io_try_def)
  qed
qed

lemma keeping_unchanged: "(\<And>w. snd (m w) = w) \<Longrightarrow> keeping m"
  by (simp add: keeping_def keepsSlides_refl)

lemma keeping_dbStatement:
  assumes "\<And>w. keepsSlides w (snd (f w))"
  shows "keeping (dbStatement f)"
  unfolding keeping_def
proof
  fix w
  show "keepsSlides w (snd (dbStatement f w))"
  proof (cases "dbScript w")
    case Nil
    with assms [of w] show ?thesis by (auto simp: dbStatement_def split: prod.splits)
  next
    case (Cons ok rest)
    let ?v = "w\<lparr>dbScript := rest\<rparr>"
    have "keepsSlides ?v (snd (f ?v))" by (rule assms)
    then have "keepsSlides w (snd (f ?v))" by (rule keepsSlides_cong [rotated]) simp
    moreover have "keepsSlides w ?v" by (rule keepsSlides_same) simp
    ultimately show ?thesis using Cons by (auto simp: dbStatement_def split: prod.splits)
  qed
qed

lemma keeping_uuidv4: "keeping uuidv4"
  by (simp add: keeping_def uuidv4_def keepsSlides_def)

lemma keeping_saveSlide: "keeping (saveSlide pid n sid img)"
  unfolding saveSlide_def getPresentation_def
  by (intro keeping_bind keeping_try keeping_dbStatement keeping_return)
     (auto simp: keepsSlides_def sqlite_insertSlide_def keeping_def io_return_def split: option.splits)

lemma keeping_createAndSavePlaceholder: "keeping (createAndSavePlaceholder pid n t)"
  unfolding createAndSavePlaceholder_def
  by (intro keeping_bind keeping_uuidv4 keeping_saveSlide)

lemma keeping_placeholdersFrom: "keeping (placeholdersFrom pid i t)"
proof (induction pid i t rule: placeholdersFrom.induct)
  case (1 pid i t)
  show ?case
  proof (cases "i \<le> t")
    case True
    with 1 show ?thesis
      by (subst placeholdersFrom.simps) (simp add: keeping_bind keeping_createAndSavePlaceholder)
  next
    case False
    then show ?thesis by (subst placeholdersFrom.simps) (simp add: keeping_return)
  qed
qed

lemma keeping_AdmZip: "keeping (AdmZip p)"
  by (rule keeping_unchanged) (auto simp: AdmZip_def split: option.splits)

lemma keeping_createFallbackSlides: "keeping (createFallbackSlides pid filePath)"
  unfolding createFallbackSlides_def Let_def
  by (intro keeping_try keeping_bind keeping_AdmZip keeping_placeholdersFrom)

lemma keeping_readAsText: "keeping (readAsText z n)"
  by (rule keeping_unchanged) (auto simp: readAsText_def getData_cases io_return_def split: option.splits)

lemma findImages_unchanged: "snd (findImagesInPresentation z refs out w) = w"
  using findImages_ok [of z refs out w] findImages_fail [of z refs out w] by (cases "relsReadable z") auto

lemma keeping_findImages: "keeping (findImagesInPresentation z refs out)"
  by (rule keeping_unchanged) (rule findImages_unchanged)

lemma keeping_renderSlides: "keeping (renderSlides z pid out tot i xs)"
proof (induction xs arbitrary: i)
  case Nil
  show ?case by (simp add: keeping_return)
next
  case (Cons x xs)
  show ?case
    unfolding renderSlides.simps Let_def
    by (intro keeping_bind keeping_uuidv4 keeping_readAsText keeping_findImages keeping_saveSlide Cons)
qed

lemma keeping_processSlides: "keeping (processSlides filePath pid out tot)"
  unfolding processSlides_def
  by (intro keeping_try keeping_createFallbackSlides)
     (auto simp: Let_def intro!: keeping_throw keeping_bind keeping_AdmZip keeping_createAndSavePlaceholder
        keeping_renderSlides)

text \<open>
  Claim C1, as the code has it. In every world, whatever fails, the slides that
  \<open>processSlides\<close> finds or has saved stay in the table: the store has no operation
  that removes a slide. For a \<open>.pptx\<close> archive with \<open>N > 0\<close> slide-XML entries and a
  store that accepts every statement: let \<open>k\<close> be the number of leading entries, in
  slide order, that are extractable. If \<open>k = N\<close>, exactly \<open>N\<close> slides numbered
  \<open>1..N\<close> are added. If \<open>k < N\<close>, the extraction throws at entry \<open>k + 1\<close>; the
  \<open>k\<close> slides already saved stay, numbered \<open>1..k\<close>, and \<open>createFallbackSlides\<close>
  adds \<open>N\<close> placeholders numbered \<open>1..N\<close> after them. So the result is \<open>N\<close>
  placeholders alone only when the failure comes before the first slide is saved.
\<close>

theorem processSlides_partial_progress:
  "keepsSlides w (snd (processSlides filePath presentationId outputDir totalSlides w))
   \<and> (dbScript w = [] \<and> endsWith ''.pptx'' (toLowerCase filePath)
        \<and> AdmZip filePath w = (Inr entries, w)
        \<and> slideXMLs = sort_key slideXmlNumber (filter (\<lambda>entry. isSlideXml (entryName entry)) entries)
        \<and> slideXMLs \<noteq> []
        \<and> k = length (takeWhile (extractable entries) slideXMLs)
      \<longrightarrow> (\<exists>w'. processSlides filePath presentationId outputDir totalSlides w = (Inr (), w')
             \<and> map s_slide_number (slidesT w') = map s_slide_number (slidesT w) @
                  (if k = length slideXMLs then map int [1..<Suc k]
                   else map int [1..<Suc k] @ [1..int (length slideXMLs)])
             \<and> (k < length slideXMLs \<longrightarrow>
                  map s_image (drop (length (slidesT w) + k) (slidesT w'))
                    = map (\<lambda>j. createPlaceholderImage j (int (length slideXMLs))) [1..int (length slideXMLs)])))"
proof -
  have "keepsSlides w (snd (processSlides filePath presentationId outputDir totalSlides w))"
    using keeping_processSlides [of filePath presentationId outputDir totalSlides]
    by (simp add: keeping_def)
  then show ?thesis
    using processSlides_numbers [of w filePath entries slideXMLs k presentationId outputDir totalSlides]
    by blast
qed

theorem processSlides_partial_progress_witness:
  "dbScript uploadWorld = []
   \<and> endsWith ''.pptx'' (toLowerCase ''/app/uploads/broken.pptx'')
   \<and> AdmZip ''/app/uploads/broken.pptx'' uploadWorld = (Inr brokenEntries, uploadWorld)
   \<and> length (sort_key slideXmlNumber (filter (\<lambda>entry. isSlideXml (entryName entry)) brokenEntries)) = 2
   \<and> length (takeWhile (extractable brokenEntries)
        (sort_key slideXmlNumber (filter (\<lambda>entry. isSlideXml (entryName entry)) brokenEntries))) = 1
   \<and> keepsSlides uploadWorld
        (snd (processSlides ''/app/uploads/broken.pptx'' ''p1'' ''/app/uploads/p1'' (Some 2) uploadWorld))
   \<and> (\<exists>w'. processSlides ''/app/uploads/broken.pptx'' ''p1'' ''/app/uploads/p1'' (Some 2) uploadWorld = (Inr (), w')
          \<and> map s_slide_number (slidesT w') = [1, 1, 2]
          \<and> map s_image (drop 1 (slidesT w')) = [createPlaceholderImage 1 2, createPlaceholderImage 2 2])"
proof -
  let ?xs = "sort_key slideXmlNumber (filter (\<lambda>entry. isSlideXml (entryName entry)) brokenEntries)"
  have h1: "dbScript uploadWorld = []" by (simp add: uploadWorld_def)
  have h2: "endsWith ''.pptx'' (toLowerCase ''/app/uploads/broken.pptx'')" by (rule pptx_paths)
  have h3: "AdmZip ''/app/uploads/broken.pptx'' uploadWorld = (Inr brokenEntries, uploadWorld)"
    by (simp add: AdmZip_def uploadWorld_def uploadedFiles_def)
  have h5: "?xs \<noteq> []" and n: "length ?xs = 2" by (simp_all add: brokenEntries_sorted)
  have k: "length (takeWhile (extractable brokenEntries) ?xs) = 1"
    unfolding brokenEntries_sorted
    by (simp add: extractable_def readable_def relsReadable_def getEntry_def find_first_def brokenEntries_def
          str_defs)
  have s: "slidesT uploadWorld = []" by (simp add: uploadWorld_def)
  have n': "length (filter (\<lambda>entry. isSlideXml (entryName entry)) brokenEntries) = 2"
    using n by simp
  have u: "[1..2::int] = [1, 2]" by code_simp
  note inst = processSlides_partial_progress
                [of uploadWorld "''/app/uploads/broken.pptx''" "''p1''" "''/app/uploads/p1''" "Some 2"
                    brokenEntries ?xs 1]
  from inst have keep: "keepsSlides uploadWorld
        (snd (processSlides ''/app/uploads/broken.pptx'' ''p1'' ''/app/uploads/p1'' (Some 2) uploadWorld))"
    by blast
  from inst h1 h2 h3 h5 k
  have "\<exists>w'. processSlides ''/app/uploads/broken.pptx'' ''p1'' ''/app/uploads/p1'' (Some 2) uploadWorld = (Inr (), w')
          \<and> map s_slide_number (slidesT w') = [1, 1, 2]
          \<and> map s_image (drop 1 (slidesT w')) = [createPlaceholderImage 1 2, createPlaceholderImage 2 2]"
    by (simp add: s n n' u)
  with h1 h2 h3 n k keep show ?thesis by (intro conjI)
qed

text \<open>
  The claim as stated fails on the deck whose second slide cannot be read: the
  presentation ends with three slides, the rendered first slide and two placeholders.
\<close>

theorem processSlides_mixture_counterexample:
  "map s_slide_number (slidesT (snd (processSlides ''/app/uploads/broken.pptx'' ''p1'' ''/app/uploads/p1'' (Some 2) uploadWorld)))
     = [1, 1, 2]
   \<and> map s_image (slidesT (snd (processSlides ''/app/uploads/broken.pptx'' ''p1'' ''/app/uploads/p1'' (Some 2) uploadWorld)))
     = [createRichSlideVisualization 1 2 ''First'' [''Body''] [], createPlaceholderImage 1 2, createPlaceholderImage 2 2]"
proof -
  have z: "AdmZip ''/app/uploads/broken.pptx'' w = (Inr brokenEntries, w)" if "fsFiles w = uploadedFiles" for w
    using that by (simp add: AdmZip_def uploadedFiles_def)
  have c: "length (filter (\<lambda>entry. isSlideXml (entryName entry)) brokenEntries) = 2"
    by (simp add: brokenEntries_def str_defs)
  then have c': "filter (\<lambda>entry. isSlideXml (entryName entry)) brokenEntries \<noteq> []"
    by auto
  have r1: "readAsText brokenEntries ''ppt/slides/slide1.xml'' w = (Inr ''<a:t>First</a:t><a:t>Body</a:t>'', w)"
    and r2: "readAsText brokenEntries ''ppt/slides/slide2.xml'' w = (Inl (Error ''Invalid entry data''), w)" for w
    by (simp_all add: readAsText_def getEntry_def find_first_def brokenEntries_def getData_def io_defs)
  show ?thesis
    by (simp add: processSlides_def pptx_paths z slideEntries_filter brokenEntries_sorted Let_def io_defs
          uploadWorld_def r1 r2 extract_first refs_first images_broken store_defs createFallbackSlides_def c c'
          placeholdersFrom.simps)
qed

section \<open>Ordering and numbering the converted images\<close>

lemma digitValue_le: "isDigit c \<Longrightarrow> digitValue c \<le> 9"
  by (cases c) (auto simp: isDigit_def digitValue_def less_eq_char_def)

lemma digitsToNat_snoc: "digitsToNat (ds @ [c]) = 10 * digitsToNat ds + digitValue c"
  by (simp add: digitsToNat_def)

lemma digitsToNat_less: "list_all isDigit ds \<Longrightarrow> digitsToNat ds < 10 ^ length ds"
proof (induction ds rule: rev_induct)
  case Nil
  then show ?case by (simp add: digitsToNat_def)
next
  case (snoc c ds)
  then have "digitsToNat ds < 10 ^ length ds" and "digitValue c \<le> 9"
    by (simp_all add: digitValue_le)
  then show ?case by (simp add: digitsToNat_snoc)
qed

lemma digitsToNat_short:
  assumes "list_all isDigit ds" and "length ds \<le> 15"
  shows "digitsToNat ds < 2 ^ 53"
proof -
  have "digitsToNat ds < 10 ^ length ds" using assms(1) by (rule digitsToNat_less)
  also have "(10::nat) ^ length ds \<le> 10 ^ 15" using assms(2) by (intro power_increasing) simp_all
  also have "(10::nat) ^ 15 < 2 ^ 53" by simp
  finally show ?thesis .
qed

lemma isDigit_not_white: "isDigit c \<Longrightarrow> \<not> isWhiteSpace c"
  by (auto simp: isDigit_def isWhiteSpace_def less_eq_char_def)

lemma isDigit_chars: "isDigit c \<Longrightarrow> c \<noteq> CHR ''-'' \<and> c \<noteq> CHR ''+'' \<and> c \<noteq> CHR ''x'' \<and> c \<noteq> CHR ''X'' \<and> c \<noteq> CHR ''.''"
  by (auto simp: isDigit_def less_eq_char_def)

lemma parseInt_digits:
  assumes "ds \<noteq> []" and "list_all isDigit ds"
  shows "parseInt ds = Some (toNumber (int (digitsToNat ds)))"
proof -
  obtain c cs where ds: "ds = c # cs" using assms(1) by (cases ds) auto
  with assms(2) have c: "isDigit c" and cs: "list_all isDigit cs" by auto
  have nohex: "\<not> startsWith ''0x'' ds" "\<not> startsWith ''0X'' ds"
    using cs isDigit_chars by (cases cs; auto simp: startsWith_def ds)+
  have nosign: "\<not> startsWith ''-'' ds" "\<not> startsWith ''+'' ds"
    using c isDigit_chars by (auto simp: startsWith_def ds)
  have w: "dropWhile isWhiteSpace ds = ds"
    using c isDigit_not_white by (simp add: ds)
  have t: "takeWhile isDigit ds = ds"
    using assms(2) by (simp add: list_all_iff)
  show ?thesis
    using nohex nosign assms(1) by (simp add: parseInt_def w t Let_def)
qed

lemma matchDigitsHere_digits:
  "matchDigitsHere pre post s = Some ds \<Longrightarrow> ds \<noteq> [] \<and> list_all isDigit ds"
  by (auto simp: matchDigitsHere_def list_all_iff split: if_splits dest: set_takeWhileD)

lemma matchDigits_digits:
  "matchDigits pre post s = Some ds \<Longrightarrow> ds \<noteq> [] \<and> list_all isDigit ds"
  by (induction s) (auto split: option.splits dest: matchDigitsHere_digits)

lemma matchDigits_value:
  "matchDigits pre post s = Some ds \<Longrightarrow> parseInt ds = Some (toNumber (int (digitsToNat ds)))"
  using matchDigits_digits parseInt_digits by blast

lemma getNumber_cases:
  "getNumber f =
     (case matchDigits ''slide-'' ''.png'' f of
        Some ds \<Rightarrow> toNumber (int (digitsToNat ds))
      | None \<Rightarrow>
          (case matchDigits ''slide'' ''.png'' f of
             Some ds \<Rightarrow> toNumber (int (digitsToNat ds))
           | None \<Rightarrow>
               (case matchDigits [] [] f of
                  Some ds \<Rightarrow> toNumber (int (digitsToNat ds))
                | None \<Rightarrow> Finite 0)))"
  by (auto simp: getNumber_def matchDigits_value split: option.splits)

lemma getNumber_nonneg: "Finite 0 \<le> getNumber f"
  by (simp add: getNumber_cases toNumber_nonneg split: option.splits)

lemma matchDigitsHere_no_digit:
  "list_all (\<lambda>c. \<not> isDigit c) s \<Longrightarrow> matchDigitsHere pre post s = None"
proof -
  assume a: "list_all (\<lambda>c. \<not> isDigit c) s"
  have "takeWhile isDigit (drop (length pre) s) = []"
  proof (cases "drop (length pre) s")
    case Nil then show ?thesis by simp
  next
    case (Cons c cs)
    then have "c \<in> set s" by (metis in_set_dropD list.set_intros(1))
    with a have "\<not> isDigit c" by (simp add: list_all_iff)
    with Cons show ?thesis by simp
  qed
  then show ?thesis by (simp add: matchDigitsHere_def)
qed

lemma matchDigits_no_digit:
  "list_all (\<lambda>c. \<not> isDigit c) s \<Longrightarrow> matchDigits pre post s = None"
  by (induction s) (auto simp: matchDigitsHere_no_digit split: option.splits)

lemma getNumber_no_digit: "list_all (\<lambda>c. \<not> isDigit c) f \<Longrightarrow> getNumber f = Finite 0"
  by (simp add: getNumber_cases matchDigits_no_digit)

lemma matchDigitsHere_pre: "matchDigitsHere pre post s = Some ds \<Longrightarrow> set pre \<subseteq> set s"
  by (auto simp: matchDigitsHere_def startsWith_def split: if_splits dest: in_set_takeD)
     (metis in_set_takeD)

lemma matchDigits_pre: "matchDigits pre post s = Some ds \<Longrightarrow> set pre \<subseteq> set s"
proof (induction s)
  case Nil
  then show ?case using matchDigitsHere_pre by fastforce
next
  case (Cons c cs)
  show ?case
  proof (cases "matchDigitsHere pre post (c # cs)")
    case None
    with Cons show ?thesis by auto
  next
    case (Some a)
    with Cons.prems have "matchDigitsHere pre post (c # cs) = Some ds" by simp
    then show ?thesis by (rule matchDigitsHere_pre)
  qed
qed

lemma matchDigits_at_start:
  assumes "ds \<noteq> []" "list_all isDigit ds" "post \<noteq> []" "\<not> isDigit (hd post)"
  shows "matchDigits pre post (pre @ ds @ post @ rest) = Some ds"
proof -
  have t: "takeWhile isDigit (ds @ post @ rest) = ds"
    using assms by (cases post) (auto simp: list_all_iff takeWhile_append2 )
  have d: "dropWhile isDigit (ds @ post @ rest) = post @ rest"
    using assms by (cases post) (auto simp: list_all_iff dropWhile_append2)
  have "matchDigitsHere pre post (pre @ ds @ post @ rest) = Some ds"
    using assms(1) by (simp add: matchDigitsHere_def startsWith_def t d)
  then show ?thesis
    by (cases "pre @ ds @ post @ rest") (auto simp: matchDigitsHere_def)
qed

lemma getNumber_dash:
  assumes "ds \<noteq> []" "list_all isDigit ds"
  shows "getNumber (''slide-'' @ ds @ ''.png'' @ rest) = toNumber (int (digitsToNat ds))"
  using matchDigits_at_start [OF assms, of "''.png''" "''slide-''" rest]
  by (simp add: getNumber_cases isDigit_def less_eq_char_def)

lemma getNumber_nodash:
  assumes "ds \<noteq> []" "list_all isDigit ds"
  shows "getNumber (''slide'' @ ds @ ''.png'') = toNumber (int (digitsToNat ds))"
proof -
  have "CHR ''-'' \<notin> set (''slide'' @ ds @ ''.png'')"
    using assms(2) isDigit_chars by (auto simp: list_all_iff)
  then have "matchDigits ''slide-'' ''.png'' (''slide'' @ ds @ ''.png'') = None"
    using matchDigits_pre [of "''slide-''" "''.png''" "''slide'' @ ds @ ''.png''"]
    by (cases "matchDigits ''slide-'' ''.png'' (''slide'' @ ds @ ''.png'')") auto
  moreover have "matchDigits ''slide'' ''.png'' (''slide'' @ ds @ ''.png'' @ []) = Some ds"
    by (rule matchDigits_at_start) (use assms in \<open>auto simp: isDigit_def less_eq_char_def\<close>)
  ultimately show ?thesis by (simp add: getNumber_cases)
qed

lemma sort_key_least_first:
  fixes f :: "'a \<Rightarrow> 'k :: linorder"
  assumes "\<And>x. z \<le> f x"
  shows "sort_key f xs = filter (\<lambda>x. f x = z) xs @ sort_key f (filter (\<lambda>x. f x \<noteq> z) xs)"
proof (rule properties_for_sort_key)
  show "mset (filter (\<lambda>x. f x = z) xs @ sort_key f (filter (\<lambda>x. f x \<noteq> z) xs)) = mset xs"
    by (induction xs) auto
  show "sorted (map f (filter (\<lambda>x. f x = z) xs @ sort_key f (filter (\<lambda>x. f x \<noteq> z) xs)))"
    using assms by (auto simp: sorted_append intro: sorted_map_same)
next
  fix k
  have st: "filter (\<lambda>x. f k = f x) (sort_key f ys) = filter (\<lambda>x. f k = f x) ys" for ys
    by (induction ys) (auto simp: filter_insort insort_is_Cons filter_insort_triv)
  show "filter (\<lambda>x. f k = f x) (filter (\<lambda>x. f x = z) xs @ sort_key f (filter (\<lambda>x. f x \<noteq> z) xs))
        = filter (\<lambda>x. f k = f x) xs"
  proof (cases "f k = z")
    case True
    have a: "filter (\<lambda>x. f k = f x) (filter (\<lambda>x. f x = z) xs) = filter (\<lambda>x. f k = f x) xs"
      unfolding filter_filter by (rule filter_cong [OF refl]) (use True in auto)
    have b: "filter (\<lambda>x. f k = f x) (filter (\<lambda>x. f x \<noteq> z) xs) = []"
      unfolding filter_filter using True by (auto simp: filter_empty_conv)
    show ?thesis by (simp only: filter_append st a b append_Nil2)
  next
    case False
    have a: "filter (\<lambda>x. f k = f x) (filter (\<lambda>x. f x = z) xs) = []"
      unfolding filter_filter using False by (auto simp: filter_empty_conv)
    have b: "filter (\<lambda>x. f k = f x) (filter (\<lambda>x. f x \<noteq> z) xs) = filter (\<lambda>x. f k = f x) xs"
      unfolding filter_filter by (rule filter_cong [OF refl]) (use False in auto)
    show ?thesis by (simp only: filter_append st a b append_Nil)
  qed
qed

lemma matchDigits_first_run:
  assumes "list_all (\<lambda>c. \<not> isDigit c) pre" and "ds \<noteq> []" and "list_all isDigit ds"
      and "rest = [] \<or> \<not> isDigit (hd rest)"
  shows "matchDigits [] [] (pre @ ds @ rest) = Some ds"
  using assms(1)
proof (induction pre)
  case Nil
  have t: "takeWhile isDigit (ds @ rest) = ds"
    using assms(3,4) by (cases rest) (auto simp: list_all_iff)
  obtain c cs where "ds @ rest = c # cs" using assms(2) by (cases ds) auto
  with t assms(2) show ?case by (simp add: matchDigitsHere_def startsWith_def)
next
  case (Cons c pre)
  then have "matchDigitsHere [] [] (c # pre @ ds @ rest) = None"
    by (simp add: matchDigitsHere_def)
  with Cons show ?case by simp
qed

text \<open>
  The numbers are doubles, so a run of digits from \<open>2^53\<close> on may stand for a
  neighbour of the integer it writes: two names whose runs differ have the same number
  then, and keep the order of the listing.
\<close>

lemma getNumber_rounds:
  "getNumber ''slide-9007199254740993.png'' = Finite 9007199254740992
   \<and> sortSlideFiles [''slide-9007199254740993.png'', ''slide-9007199254740992.png'', ''slide-3.png'']
       = [''slide-3.png'', ''slide-9007199254740993.png'', ''slide-9007199254740992.png'']"
  by (simp add: sortSlideFiles_def getNumber_def str_defs parseInt_def digitsToNat_def digitValue_def
        isWhiteSpace_def toNumber_def roundToDouble_def bitLength.simps Let_def less_eq_number_def)

text \<open>
  Claim C7. The number of a file name is that of the leftmost \<open>slide-N.png\<close> in it; failing
  that, of the leftmost \<open>slideN.png\<close>; failing that, of the first run of digits; failing
  that, 0. The number of a run of digits is what \<open>parseInt\<close> returns for it, the double
  nearest to the integer the digits write, which is that integer when it is below
  \<open>2^53\<close>, as it is for every run of at most 15 digits. So \<open>slide-N.png\<close> and
  \<open>slideN.png\<close> have number \<open>N\<close>, a name in which no slide pattern occurs has the
  number of its first digit run, and a name without digits has number 0. The list of the
  \<open>.png\<close> files, sorted, is a rearrangement of them that ascends by this number; numbers
  are never negative, so the files of number 0 come first, in the order of the listing,
  before the others.
\<close>

theorem sortSlideFiles_by_number:
  "sorted (map getNumber (sortSlideFiles files))
   \<and> mset (sortSlideFiles files) = mset (filter (endsWith ''.png'') files)
   \<and> sortSlideFiles files
       = filter (\<lambda>f. getNumber f = Finite 0) (filter (endsWith ''.png'') files)
         @ sort_key getNumber (filter (\<lambda>f. getNumber f \<noteq> Finite 0) (filter (endsWith ''.png'') files))
   \<and> getNumber f =
       (case matchDigits ''slide-'' ''.png'' f of
          Some ds \<Rightarrow> toNumber (int (digitsToNat ds))
        | None \<Rightarrow>
            (case matchDigits ''slide'' ''.png'' f of
               Some ds \<Rightarrow> toNumber (int (digitsToNat ds))
             | None \<Rightarrow>
                 (case matchDigits [] [] f of
                    Some ds \<Rightarrow> toNumber (int (digitsToNat ds))
                  | None \<Rightarrow> Finite 0)))
   \<and> (ds \<noteq> [] \<and> list_all isDigit ds \<longrightarrow>
        getNumber (''slide-'' @ ds @ ''.png'') = toNumber (int (digitsToNat ds))
      \<and> getNumber (''slide'' @ ds @ ''.png'') = toNumber (int (digitsToNat ds))
      \<and> (list_all (\<lambda>c. \<not> isDigit c) pre \<and> (rest = [] \<or> \<not> isDigit (hd rest))
            \<longrightarrow> matchDigits [] [] (pre @ ds @ rest) = Some ds))
   \<and> (digitsToNat ds < 2 ^ 53 \<longrightarrow> toNumber (int (digitsToNat ds)) = Finite (int (digitsToNat ds)))
   \<and> (list_all isDigit ds \<and> length ds \<le> 15 \<longrightarrow> digitsToNat ds < 2 ^ 53)
   \<and> (list_all (\<lambda>c. \<not> isDigit c) f \<longrightarrow> getNumber f = Finite 0)
   \<and> Finite 0 \<le> getNumber f"
proof -
  have "sortSlideFiles files
       = filter (\<lambda>f. getNumber f = Finite 0) (filter (endsWith ''.png'') files)
         @ sort_key getNumber (filter (\<lambda>f. getNumber f \<noteq> Finite 0) (filter (endsWith ''.png'') files))"
    unfolding sortSlideFiles_def by (rule sort_key_least_first) (rule getNumber_nonneg)
  moreover have "sorted (map getNumber (sortSlideFiles files))"
    by (simp add: sortSlideFiles_def)
  moreover have "mset (sortSlideFiles files) = mset (filter (endsWith ''.png'') files)"
    by (simp add: sortSlideFiles_def)
  moreover have "getNumber (''slide-'' @ ds @ ''.png'') = toNumber (int (digitsToNat ds))"
    if "ds \<noteq> []" "list_all isDigit ds"
    using getNumber_dash [OF that, of "[]"] by simp
  moreover have "toNumber (int (digitsToNat ds)) = Finite (int (digitsToNat ds))"
    if "digitsToNat ds < 2 ^ 53"
    by (rule toNumber_small) (use that in simp_all)
  ultimately show ?thesis
    using getNumber_cases [of f] getNumber_nodash [of ds] matchDigits_first_run [of pre ds rest]
      getNumber_no_digit [of f] getNumber_nonneg [of f] digitsToNat_short [of ds]
    by blast
qed

theorem sortSlideFiles_by_number_witness:
  "list_all isDigit ''07'' \<and> list_all (\<lambda>c. \<not> isDigit c) ''page'' \<and> \<not> isDigit (hd ''.png'')
   \<and> list_all (\<lambda>c. \<not> isDigit c) ''cover.png'' \<and> length ''07'' \<le> 15
   \<and> digitsToNat ''07'' < 2 ^ 53
   \<and> getNumber ''slide-07.png'' = Finite 7 \<and> getNumber ''slide07.png'' = Finite 7
   \<and> matchDigits [] [] ''page07.png'' = Some ''07''
   \<and> getNumber ''cover.png'' = Finite 0
   \<and> sorted (map getNumber (sortSlideFiles [''slide-10.png'', ''cover.png'', ''slide2.png'', ''notes.txt'', ''page3.png'']))"
proof -
  let ?files = "[''slide-10.png'', ''cover.png'', ''slide2.png'', ''notes.txt'', ''page3.png'']"
  have h1: "''07'' \<noteq> [] \<and> list_all isDigit ''07''"
    and h2: "list_all (\<lambda>c. \<not> isDigit c) ''page''"
    and h3: "\<not> isDigit (hd ''.png'')"
    and h4: "list_all (\<lambda>c. \<not> isDigit c) ''cover.png''"
    by (simp_all add: isDigit_def less_eq_char_def)
  have h5: "length ''07'' \<le> 15" by simp
  have d: "int (digitsToNat ''07'') = 7" by (simp add: digitsToNat_def digitValue_def)
  note inst = sortSlideFiles_by_number [of ?files "''cover.png''" "''07''" "''page''" "''.png''"]
  from inst have c1: "sorted (map getNumber (sortSlideFiles ?files))" by blast
  from inst h1 h5 have h6: "digitsToNat ''07'' < 2 ^ 53" by blast
  from inst h6 have e: "toNumber (int (digitsToNat ''07'')) = Finite (int (digitsToNat ''07''))" by blast
  from inst h1 have c2: "getNumber (''slide-'' @ ''07'' @ ''.png'') = toNumber (int (digitsToNat ''07''))"
    and c3: "getNumber (''slide'' @ ''07'' @ ''.png'') = toNumber (int (digitsToNat ''07''))" by blast+
  from inst h1 h2 h3 have c4: "matchDigits [] [] (''page'' @ ''07'' @ ''.png'') = Some ''07''" by blast
  from inst h4 have c5: "getNumber ''cover.png'' = Finite 0" by blast
  from c2 e d have w5: "getNumber ''slide-07.png'' = Finite 7" by simp
  from c3 e d have w6: "getNumber ''slide07.png'' = Finite 7" by simp
  from c4 have w7: "matchDigits [] [] ''page07.png'' = Some ''07''" by simp
  from h1 have w1: "list_all isDigit ''07''" by blast
  from w1 h2 h3 h4 h5 h6 w5 w6 w7 c5 c1 show ?thesis by (intro conjI)
qed

lemma map_of_filter_other:
  "q \<noteq> p \<Longrightarrow> map_of (filter (\<lambda>e. fst e \<noteq> p) xs) q = map_of xs q"
  by (induction xs) auto

lemma pathJoin_inj: "pathJoin d a = pathJoin d b \<longleftrightarrow> a = b"
  by (simp add: pathJoin_def)

lemma saveImageFiles_step:
  assumes "dbScript w = []" and "map_of (fsFiles w) (pathJoin dir f) = Some fl"
  shows "\<exists>w1 sid.
           saveImageFiles cleanup pid dir i (f # rest) w = saveImageFiles cleanup pid dir (Suc i) rest w1
         \<and> slidesT w1 = slidesT w @ [\<lparr>s_presentation_id = pid, s_slide_id = sid, s_slide_number = int i + 1,
                                        s_image = toBase64 (fileBytes fl)\<rparr>]
         \<and> dbScript w1 = []
         \<and> (\<forall>q. q \<noteq> pathJoin dir f \<longrightarrow> map_of (fsFiles w1) q = map_of (fsFiles w) q)"
proof -
  let ?w0 = "w\<lparr>uuidCounter := Suc (uuidCounter w)\<rparr>"
  let ?sid = "''uuid-'' @ natToString (uuidCounter w)"
  have "dbScript ?w0 = []" using assms(1) by simp
  from saveSlide_healthy [OF this, of pid "int i + 1" ?sid "toBase64 (fileBytes fl)"]
  obtain w1 where s: "saveSlide pid (int i + 1) ?sid (toBase64 (fileBytes fl)) ?w0 = (Inr (), w1)"
    and r: "slidesT w1 = slidesT w @ [\<lparr>s_presentation_id = pid, s_slide_id = ?sid, s_slide_number = int i + 1,
                                        s_image = toBase64 (fileBytes fl)\<rparr>]"
    and h: "dbScript w1 = []" and f: "fsFiles w1 = fsFiles w"
    by auto
  show ?thesis
  proof (cases cleanup)
    case False
    with s r h f assms(2) show ?thesis
      by (auto simp: Let_def io_bind_def io_return_def uuidv4_eq existsSync_def readFileSync_def)
  next
    case True
    let ?w2 = "w1\<lparr>fsFiles := filter (\<lambda>e. fst e \<noteq> pathJoin dir f) (fsFiles w1)\<rparr>"
    have u: "io_try (unlinkSync (pathJoin dir f)) (\<lambda>cleanupError. io_return ()) w1 = (Inr (), ?w2)"
      using f assms(2) by (simp add: io_try_def unlinkSync_def)
    have "saveImageFiles cleanup pid dir i (f # rest) w = saveImageFiles cleanup pid dir (Suc i) rest ?w2"
      using True s u assms(2)
      by (simp add: Let_def io_bind_def uuidv4_eq existsSync_def readFileSync_def)
    moreover have "\<forall>q. q \<noteq> pathJoin dir f \<longrightarrow> map_of (fsFiles ?w2) q = map_of (fsFiles w) q"
      using f by (simp add: map_of_filter_other)
    ultimately show ?thesis using r h by auto
  qed
qed

lemma saveImageFiles_all:
  "dbScript w = [] \<Longrightarrow> distinct fs \<Longrightarrow> \<forall>f \<in> set fs. map_of (fsFiles w) (pathJoin dir f) \<noteq> None \<Longrightarrow>
   \<exists>w'. saveImageFiles cleanup pid dir i fs w = (Inr (), w')
      \<and> map s_slide_number (slidesT w') = map s_slide_number (slidesT w) @ map int [Suc i..<Suc i + length fs]
      \<and> map s_image (slidesT w') = map s_image (slidesT w)
           @ map (\<lambda>f. toBase64 (fileBytes (the (map_of (fsFiles w) (pathJoin dir f))))) fs"
proof (induction fs arbitrary: w i)
  case Nil
  then show ?case by (simp add: io_return_def)
next
  case (Cons f fs)
  from Cons.prems obtain fl where fl: "map_of (fsFiles w) (pathJoin dir f) = Some fl" by auto
  from saveImageFiles_step [OF Cons.prems(1) fl, of cleanup pid i fs]
  obtain w1 sid where
    s: "saveImageFiles cleanup pid dir i (f # fs) w = saveImageFiles cleanup pid dir (Suc i) fs w1"
    and r: "slidesT w1 = slidesT w @ [\<lparr>s_presentation_id = pid, s_slide_id = sid, s_slide_number = int i + 1,
                                        s_image = toBase64 (fileBytes fl)\<rparr>]"
    and h: "dbScript w1 = []"
    and o: "\<forall>q. q \<noteq> pathJoin dir f \<longrightarrow> map_of (fsFiles w1) q = map_of (fsFiles w) q"
    by blast
  have same: "map_of (fsFiles w1) (pathJoin dir g) = map_of (fsFiles w) (pathJoin dir g)" if "g \<in> set fs" for g
  proof -
    from that Cons.prems(2) have "g \<noteq> f" by auto
    then show ?thesis using o by (simp add: pathJoin_inj)
  qed
  have d: "distinct fs" using Cons.prems(2) by simp
  have e: "\<forall>g \<in> set fs. map_of (fsFiles w1) (pathJoin dir g) \<noteq> None"
    using same Cons.prems(3) by simp
  from Cons.IH [OF h d e, of "Suc i"]
  obtain w' where "saveImageFiles cleanup pid dir (Suc i) fs w1 = (Inr (), w')"
    "map s_slide_number (slidesT w') = map s_slide_number (slidesT w1) @ map int [Suc (Suc i)..<Suc (Suc i) + length fs]"
    "map s_image (slidesT w') = map s_image (slidesT w1)
           @ map (\<lambda>f. toBase64 (fileBytes (the (map_of (fsFiles w1) (pathJoin dir f))))) fs"
    by blast
  with s r fl same show ?case
    by (auto simp: upt_conv_Cons simp del: saveImageFiles.simps upt_Suc)
qed

lemma getNumber_ten:
  "map getNumber tenSlideFiles
     = [Finite 1, Finite 2, Finite 3, Finite 4, Finite 5, Finite 6, Finite 7, Finite 8, Finite 9, Finite 10]"
  by code_simp

lemma ten_png: "filter (endsWith ''.png'') tenSlideFiles = tenSlideFiles"
  by code_simp

lemma ten_distinct: "distinct tenSlideFiles"
  by code_simp

text \<open>
  Claim C3. When the listing of the images directory is exactly the ten files
  \<open>slide-01.png\<close> to \<open>slide-10.png\<close>, in any order, sorting puts them in that order,
  the number extracted from the \<open>i\<close>-th is \<open>i\<close>, and the loop that saves them (with or
  without deleting each file afterwards) adds ten slides to the table, numbered 1 to 10 in
  this order, the \<open>i\<close>-th carrying the base64 text of the \<open>i\<close>-th file.
\<close>

theorem converted_files_numbered:
  assumes "set listing = set tenSlideFiles" and "distinct listing"
      and "dbScript w = []"
      and "\<forall>f \<in> set tenSlideFiles. map_of (fsFiles w) (pathJoin imagesDir f) \<noteq> None"
  shows "sortSlideFiles listing = tenSlideFiles
       \<and> map getNumber (sortSlideFiles listing)
            = [Finite 1, Finite 2, Finite 3, Finite 4, Finite 5, Finite 6, Finite 7, Finite 8, Finite 9, Finite 10]
       \<and> (\<exists>w'. saveImageFiles cleanup presentationId imagesDir 0 (sortSlideFiles listing) w = (Inr (), w')
              \<and> map s_slide_number (slidesT w') = map s_slide_number (slidesT w) @ [1, 2, 3, 4, 5, 6, 7, 8, 9, 10]
              \<and> map s_image (slidesT w') = map s_image (slidesT w)
                   @ map (\<lambda>f. toBase64 (fileBytes (the (map_of (fsFiles w) (pathJoin imagesDir f))))) tenSlideFiles)"
proof -
  have png: "filter (endsWith ''.png'') listing = listing"
    using ten_png assms(1) by (simp add: filter_id_conv)
  have m: "mset listing = mset tenSlideFiles"
    using assms(1,2) ten_distinct by (simp add: set_eq_iff_mset_eq_distinct)
  have inj: "inj_on getNumber (set listing)"
  proof -
    have "distinct (map getNumber tenSlideFiles)" by (simp add: getNumber_ten)
    then show ?thesis using assms(1) by (simp add: distinct_map)
  qed
  have srt: "sorted (map getNumber tenSlideFiles)" by (simp add: getNumber_ten less_eq_number_def)
  have s: "sortSlideFiles listing = tenSlideFiles"
    unfolding sortSlideFiles_def png
    by (rule sort_key_inj_key_eq [OF m inj srt])
  from saveImageFiles_all [OF assms(3) ten_distinct assms(4), of cleanup presentationId 0]
  obtain w' where "saveImageFiles cleanup presentationId imagesDir 0 tenSlideFiles w = (Inr (), w')"
    "map s_slide_number (slidesT w') = map s_slide_number (slidesT w) @ map int [Suc 0..<Suc 0 + length tenSlideFiles]"
    "map s_image (slidesT w') = map s_image (slidesT w)
           @ map (\<lambda>f. toBase64 (fileBytes (the (map_of (fsFiles w) (pathJoin imagesDir f))))) tenSlideFiles"
    by blast
  moreover have "map int [Suc 0..<Suc 0 + length tenSlideFiles] = [1, 2, 3, 4, 5, 6, 7, 8, 9, 10]"
    by code_simp
  ultimately show ?thesis using s getNumber_ten by simp
qed

theorem converted_files_numbered_witness:
  "set tenListing = set tenSlideFiles \<and> distinct tenListing \<and> dbScript tenWorld = []
   \<and> list_all (\<lambda>f. map_of (fsFiles tenWorld) (pathJoin ''/app/uploads/p1/images'' f) \<noteq> None) tenSlideFiles
   \<and> sortSlideFiles tenListing = tenSlideFiles
   \<and> (\<exists>w'. saveImageFiles True ''p1'' ''/app/uploads/p1/images'' 0 (sortSlideFiles tenListing) tenWorld = (Inr (), w')
          \<and> map s_slide_number (slidesT w') = [1, 2, 3, 4, 5, 6, 7, 8, 9, 10])"
proof -
  have h1: "set tenListing = set tenSlideFiles" by code_simp
  have h2: "distinct tenListing" by code_simp
  have h3: "dbScript tenWorld = []" by (simp add: tenWorld_def)
  have h4: "\<forall>f \<in> set tenSlideFiles. map_of (fsFiles tenWorld) (pathJoin ''/app/uploads/p1/images'' f) \<noteq> None"
    by (simp add: tenWorld_def tenSlideFiles_def tenListing_def pathJoin_def)
  have s: "slidesT tenWorld = []" by (simp add: tenWorld_def)
  from converted_files_numbered [OF h1 h2 h3 h4, of True "''p1''"]
  have "sortSlideFiles tenListing = tenSlideFiles
      \<and> (\<exists>w'. saveImageFiles True ''p1'' ''/app/uploads/p1/images'' 0 (sortSlideFiles tenListing) tenWorld = (Inr (), w')
          \<and> map s_slide_number (slidesT w') = [1, 2, 3, 4, 5, 6, 7, 8, 9, 10])"
    by (auto simp: s)
  moreover from h4
  have "list_all (\<lambda>f. map_of (fsFiles tenWorld) (pathJoin ''/app/uploads/p1/images'' f) \<noteq> None) tenSlideFiles"
    by (simp add: list_all_iff)
  ultimately show ?thesis using h1 h2 h3 by (intro conjI) auto
qed

section \<open>The entry point and the temporary upload\<close>

lemma count_deck: "getSlideCount ''/app/uploads/deck.pptx'' w = (Inr 2, w)" if "fsFiles w = uploadedFiles" for w
  using that
  by (simp add: getSlideCount_def str_defs io_defs AdmZip_def uploadedFiles_def deckEntries_def Let_def)

lemma base_deck: "basename ''/app/uploads/deck.pptx'' (extname ''/app/uploads/deck.pptx'') = ''deck''"
  by (simp add: basename_def extname_def lastComponent_def Let_def endsWith_def)

lemma sort2: "sortSlideFiles [''slide-2.png'', ''slide-1.png''] = [''slide-1.png'', ''slide-2.png'']"
  by code_simp

lemma map_of_filter_self: "map_of (filter (\<lambda>e. fst e \<noteq> p) xs) p = None"
  by (induction xs) auto

lemma cleanupUpload_removes:
  "\<exists>w'. cleanupUpload filePath w = (Inr (), w') \<and> map_of (fsFiles w') filePath = None"
  by (auto simp: cleanupUpload_def io_try_def io_bind_def io_return_def existsSync_def unlinkSync_def
        map_of_filter_self split: option.splits)

lemma processPresentation_raises:
  assumes "fst (processPresentation filename filePath w) = Inl err"
  shows "map_of (fsFiles (snd (processPresentation filename filePath w))) filePath = None"
proof -
  define body where "body =
       (io_bind (createPresentation filename) (\<lambda>presentationId.
        io_bind getCwd (\<lambda>workingDir.
        let outputDir = pathJoin (pathJoin workingDir ''uploads'') presentationId in
        io_bind (ensureDir outputDir) (\<lambda>_.
        io_bind (getSlideCount filePath) (\<lambda>totalSlides.
        io_bind (io_try (convertViaPdf filePath presentationId outputDir)
                        (\<lambda>err. io_return (Continue False))) (\<lambda>r.
        case r of
          Returned v \<Rightarrow> io_return v
        | Continue success \<Rightarrow>
            io_bind (if \<not> success then convertViaPdfAgain filePath presentationId outputDir
                     else io_return success) (\<lambda>success.
            io_bind (if \<not> success then processSlides filePath presentationId outputDir (Some totalSlides)
                     else io_return ()) (\<lambda>_.
            io_bind (cleanupUpload filePath) (\<lambda>_.
            io_return presentationId)))))))))"
  have p: "processPresentation filename filePath w
             = io_try body (\<lambda>err. io_bind (cleanupUpload filePath) (\<lambda>_. io_throw err)) w"
    by (simp add: processPresentation_def body_def)
  obtain r w1 where b: "body w = (r, w1)" by (cases "body w")
  show ?thesis
  proof (cases r)
    case (Inr x)
    with b p assms show ?thesis by (simp add: io_try_def)
  next
    case (Inl e)
    from cleanupUpload_removes [of filePath w1]
    obtain w2 where "cleanupUpload filePath w1 = (Inr (), w2)" "map_of (fsFiles w2) filePath = None"
      by blast
    with b p Inl show ?thesis by (simp add: io_try_def io_bind_def io_throw_def)
  qed
qed


text \<open>
  Claim C2. With working tools the first attempt saves the two page images and leaves
  through its own \<open>return\<close>: the call succeeds and the uploaded file is still on disk.
  Without tools the same upload goes through the fallback extractor and the cleanup that
  follows it: the call succeeds and the uploaded file is gone. And whenever the call
  raises, in any world, the uploaded file is gone when the exception reaches the caller.
\<close>

theorem processPresentation_early_return_keeps_upload:
  "fst (processPresentation ''deck.pptx'' ''/app/uploads/deck.pptx'' convertingWorld) = Inr ''uuid-0''
   \<and> map s_slide_number (slidesT (snd (processPresentation ''deck.pptx'' ''/app/uploads/deck.pptx'' convertingWorld))) = [1, 2]
   \<and> map_of (fsFiles (snd (processPresentation ''deck.pptx'' ''/app/uploads/deck.pptx'' convertingWorld)))
        ''/app/uploads/deck.pptx'' = Some \<lparr>fileBytes = ''PK-deck'', fileZip = Some deckEntries\<rparr>
   \<and> fst (processPresentation ''deck.pptx'' ''/app/uploads/deck.pptx'' uploadWorld) = Inr ''uuid-0''
   \<and> map s_slide_number (slidesT (snd (processPresentation ''deck.pptx'' ''/app/uploads/deck.pptx'' uploadWorld))) = [1, 2]
   \<and> map_of (fsFiles (snd (processPresentation ''deck.pptx'' ''/app/uploads/deck.pptx'' uploadWorld)))
        ''/app/uploads/deck.pptx'' = None
   \<and> (fst (processPresentation filename filePath w) = Inl err
        \<longrightarrow> map_of (fsFiles (snd (processPresentation filename filePath w))) filePath = None)"
proof -
  have early:
    "fst (processPresentation ''deck.pptx'' ''/app/uploads/deck.pptx'' convertingWorld) = Inr ''uuid-0''
     \<and> map s_slide_number (slidesT (snd (processPresentation ''deck.pptx'' ''/app/uploads/deck.pptx'' convertingWorld))) = [1, 2]
     \<and> map_of (fsFiles (snd (processPresentation ''deck.pptx'' ''/app/uploads/deck.pptx'' convertingWorld)))
          ''/app/uploads/deck.pptx'' = Some \<lparr>fileBytes = ''PK-deck'', fileZip = Some deckEntries\<rparr>"
    by (simp add: processPresentation_def createPresentation_def io_defs count_deck Let_def
          convertViaPdf_def convertingWorld_def fs_defs base_deck sofficeCommand_def
          pdftoppmCommand_def pdfTools_def startsWith_def uploadedFiles_def sort2 store_defs uuid0
          del: toBase64.simps)
  have r1: "readAsText deckEntries ''ppt/slides/slide1.xml'' w = (Inr ''<a:t>First</a:t><a:t>Body</a:t>'', w)"
    and r2: "readAsText deckEntries ''ppt/slides/slide2.xml'' w = (Inr ''<a:t>Second</a:t>'', w)" for w
    by (simp_all add: readAsText_def getEntry_def find_first_def deckEntries_def getData_def io_defs)
  have late:
    "fst (processPresentation ''deck.pptx'' ''/app/uploads/deck.pptx'' uploadWorld) = Inr ''uuid-0''
     \<and> map s_slide_number (slidesT (snd (processPresentation ''deck.pptx'' ''/app/uploads/deck.pptx'' uploadWorld))) = [1, 2]
     \<and> map_of (fsFiles (snd (processPresentation ''deck.pptx'' ''/app/uploads/deck.pptx'' uploadWorld)))
          ''/app/uploads/deck.pptx'' = None"
    by (simp add: processPresentation_def createPresentation_def io_defs count_deck Let_def
          convertViaPdf_def convertViaPdfAgain_def uploadWorld_def fs_defs base_deck sofficeCommand_def
          noTools_def uploadedFiles_def store_defs uuid0 processSlides_def pptx_paths slideEntries_filter
          deckEntries_sorted r1 r2 extract_first extract_second refs_first refs_second images_deck
          cleanupUpload_def)
  from early late processPresentation_raises [of filename filePath w err]
  show ?thesis by (intro conjI impI) simp_all
qed

theorem processPresentation_early_return_keeps_upload_witness:
  "fst (processPresentation ''deck.pptx'' ''/app/uploads/deck.pptx'' failingStoreWorld)
     = Inl (Error ''database error'')
   \<and> map_of (fsFiles (snd (processPresentation ''deck.pptx'' ''/app/uploads/deck.pptx'' failingStoreWorld)))
        ''/app/uploads/deck.pptx'' = None
   \<and> map_of (fsFiles (snd (processPresentation ''deck.pptx'' ''/app/uploads/deck.pptx'' convertingWorld)))
        ''/app/uploads/deck.pptx'' = Some \<lparr>fileBytes = ''PK-deck'', fileZip = Some deckEntries\<rparr>"
proof -
  have r: "fst (processPresentation ''deck.pptx'' ''/app/uploads/deck.pptx'' failingStoreWorld)
             = Inl (Error ''database error'')"
    by (simp add: processPresentation_def createPresentation_def io_defs store_defs failingStoreWorld_def
          uploadWorld_def cleanupUpload_def fs_defs uploadedFiles_def)
  note inst = processPresentation_early_return_keeps_upload
                [of "''deck.pptx''" "''/app/uploads/deck.pptx''" failingStoreWorld "Error ''database error''"]
  from inst r
  have "map_of (fsFiles (snd (processPresentation ''deck.pptx'' ''/app/uploads/deck.pptx'' failingStoreWorld)))
          ''/app/uploads/deck.pptx'' = None"
    by blast
  moreover from inst
  have "map_of (fsFiles (snd (processPresentation ''deck.pptx'' ''/app/uploads/deck.pptx'' convertingWorld)))
          ''/app/uploads/deck.pptx'' = Some \<lparr>fileBytes = ''PK-deck'', fileZip = Some deckEntries\<rparr>"
    by blast
  ultimately show ?thesis using r by (intro conjI)
qed



section \<open>Text extraction from slide markup\<close>

lemma takeWhile_no_lt:
  "CHR ''<'' \<notin> set t \<Longrightarrow> takeWhile (\<lambda>c. c \<noteq> CHR ''<'') (t @ CHR ''<'' # rest) = t"
  by (induction t) auto

lemma dropWhile_no_lt:
  "CHR ''<'' \<notin> set t \<Longrightarrow> dropWhile (\<lambda>c. c \<noteq> CHR ''<'') (t @ CHR ''<'' # rest) = CHR ''<'' # rest"
  by (induction t) auto

lemma matchRunHere_run:
  "CHR ''<'' \<notin> set t \<Longrightarrow> matchRunHere (textRun t @ rest) = Some (textRun t)"
  by (simp add: matchRunHere_def textRun_def startsWith_def takeWhile_no_lt dropWhile_no_lt)

lemma textMatches_run:
  assumes "CHR ''<'' \<notin> set t"
  shows "textMatches (textRun t @ rest) = textRun t # textMatches rest"
proof -
  obtain c cs where r: "textRun t = c # cs" by (cases "textRun t") (auto simp: textRun_def)
  have "textMatches (c # (cs @ rest)) = textRun t # textMatches (drop (length (textRun t) - 1) (cs @ rest))"
    using matchRunHere_run [OF assms, of rest] by (simp add: r)
  moreover have "drop (length (textRun t) - 1) (cs @ rest) = rest" by (simp add: r)
  ultimately show ?thesis by (simp add: r)
qed

lemma replaceFirst_close:
  "CHR ''<'' \<notin> set t \<Longrightarrow> replaceFirst ''</a:t>'' [] (t @ ''</a:t>'') = t"
  by (induction t) (auto simp: startsWith_def)

lemma strip_run:
  "CHR ''<'' \<notin> set t \<Longrightarrow> replaceFirst ''</a:t>'' [] (replaceFirst ''<a:t>'' [] (textRun t)) = t"
  using replaceFirst_close [of t] by (simp add: textRun_def startsWith_def)

lemma lazyUntil_run:
  "CHR ''<'' \<notin> set t \<Longrightarrow> list_all (\<lambda>c. \<not> isLineTerminator c) t
     \<Longrightarrow> lazyUntil ''</a:t>'' (t @ ''</a:t>'' @ rest) = Some t"
  by (induction t) (auto simp: startsWith_def)

lemma matchTitle_run:
  "CHR ''<'' \<notin> set t \<Longrightarrow> list_all (\<lambda>c. \<not> isLineTerminator c) t
     \<Longrightarrow> matchTitle (textRun t @ rest) = Some t"
  using lazyUntil_run [of t rest] by (simp add: textRun_def startsWith_def)

lemma extract_general:
  "textTitle (extractTextFromSlideXML xml)
      = (case matchTitle xml of Some t \<Rightarrow> if t = [] then ''Slide Title'' else t | None \<Rightarrow> ''Slide Title'')
   \<and> textContent (extractTextFromSlideXML xml)
      = filter (\<lambda>t. trim t \<noteq> [] \<and> t \<noteq> textTitle (extractTextFromSlideXML xml))
          (map (\<lambda>m. replaceFirst ''</a:t>'' [] (replaceFirst ''<a:t>'' [] m)) (textMatches xml))"
  by (auto simp: extractTextFromSlideXML_def Let_def split: option.splits)

lemma startsWith_open_append:
  assumes "d \<noteq> []" and "rest = [] \<or> hd rest = CHR ''<''" and "startsWith ''<a:t>'' (d @ rest)"
  shows "startsWith ''<a:t>'' d"
proof (cases rest)
  case Nil
  with assms(3) show ?thesis by simp
next
  case (Cons r rs)
  with assms(2) have r: "r = CHR ''<''" by simp
  from assms(3) have t: "take 5 (d @ r # rs) = ''<a:t>''"
    by (simp add: startsWith_def Cons eval_nat_numeral)
  show ?thesis
  proof (cases "5 \<le> length d")
    case True
    with t show ?thesis by (simp add: startsWith_def eval_nat_numeral)
  next
    case False
    moreover from assms(1) have "0 < length d" by simp
    ultimately have l: "length d = 1 \<or> length d = 2 \<or> length d = 3 \<or> length d = 4"
      by arith
    have "take 5 (d @ r # rs) ! length d = (d @ r # rs) ! length d"
      using False by (intro nth_take) simp
    then have "''<a:t>'' ! length d = r" unfolding t by simp
    with l r show ?thesis by auto
  qed
qed

lemma textMatches_skip:
  "noTextRun j \<Longrightarrow> rest = [] \<or> hd rest = CHR ''<'' \<Longrightarrow> textMatches (j @ rest) = textMatches rest"
proof (induction j)
  case Nil
  show ?case by simp
next
  case (Cons c cs)
  then have "\<not> startsWith ''<a:t>'' ((c # cs) @ rest)"
    using startsWith_open_append [of "c # cs" rest] by auto
  then have "matchRunHere (c # cs @ rest) = None" by (simp add: matchRunHere_def)
  with Cons show ?case by simp
qed

lemma matchTitle_skip:
  "noTextRun j \<Longrightarrow> rest = [] \<or> hd rest = CHR ''<'' \<Longrightarrow> matchTitle (j @ rest) = matchTitle rest"
proof (induction j)
  case Nil
  show ?case by simp
next
  case (Cons c cs)
  then have "\<not> startsWith ''<a:t>'' ((c # cs) @ rest)"
    using startsWith_open_append [of "c # cs" rest] by auto
  with Cons show ?case by simp
qed

lemma hd_textRun: "hd (textRun t @ rest) = CHR ''<''"
  by (simp add: textRun_def)

lemma hd_slideMarkup:
  "slideMarkup ((before, t) # runs) rest = before @ textRun t @ slideMarkup runs rest"
  by (simp add: slideMarkup_def)

lemma textMatches_slideMarkup:
  "list_all (\<lambda>(before, t). noTextRun before \<and> CHR ''<'' \<notin> set t) runs \<Longrightarrow> noTextRun rest
     \<Longrightarrow> textMatches (slideMarkup runs rest) = map (\<lambda>(before, t). textRun t) runs"
proof (induction runs)
  case Nil
  then show ?case using textMatches_skip [of rest "[]"] by (simp add: slideMarkup_def)
next
  case (Cons r runs)
  obtain before t where r: "r = (before, t)" by (cases r)
  with Cons.prems have b: "noTextRun before" and t: "CHR ''<'' \<notin> set t" by auto
  have "textMatches (before @ textRun t @ slideMarkup runs rest)
          = textMatches (textRun t @ slideMarkup runs rest)"
    by (rule textMatches_skip [OF b]) (simp add: hd_textRun)
  also have "\<dots> = textRun t # textMatches (slideMarkup runs rest)"
    by (rule textMatches_run [OF t])
  finally show ?case using Cons r by (simp add: hd_slideMarkup)
qed

lemma matchTitle_slideMarkup:
  assumes "list_all (\<lambda>(before, t). noTextRun before \<and> CHR ''<'' \<notin> set t) runs" and "noTextRun rest"
      and "runs \<noteq> [] \<longrightarrow> list_all (\<lambda>c. \<not> isLineTerminator c) (snd (hd runs))"
  shows "matchTitle (slideMarkup runs rest) = (if runs = [] then None else Some (snd (hd runs)))"
proof (cases runs)
  case Nil
  then show ?thesis using matchTitle_skip [OF assms(2), of "[]"] by (simp add: slideMarkup_def)
next
  case (Cons r runs')
  obtain before t where r: "r = (before, t)" by (cases r)
  with Cons assms have b: "noTextRun before" and t: "CHR ''<'' \<notin> set t"
    and l: "list_all (\<lambda>c. \<not> isLineTerminator c) t" by auto
  have "matchTitle (before @ textRun t @ slideMarkup runs' rest)
          = matchTitle (textRun t @ slideMarkup runs' rest)"
    by (rule matchTitle_skip [OF b]) (simp add: hd_textRun)
  also have "\<dots> = Some t" by (rule matchTitle_run [OF t l])
  finally show ?thesis using Cons r by (simp add: hd_slideMarkup)
qed

text \<open>
  Claim C8, as the code has it. For slide markup made of text runs \<open><a:t>t</a:t>\<close> with
  other markup around them (no run's text holds \<open><\<close>, the first text holds no line
  break): the title is the text of the first run, or \<open>Slide Title\<close> when there is no
  run or the first text is empty; the content is the list, in order and untrimmed, of the
  texts that are not blank after trimming and differ from the title. Every run whose text
  equals the title is left out, the first run and any later one alike.
\<close>

theorem extractText_markup:
  assumes "list_all (\<lambda>(before, t). noTextRun before \<and> CHR ''<'' \<notin> set t) runs" and "noTextRun rest"
      and "runs \<noteq> [] \<longrightarrow> list_all (\<lambda>c. \<not> isLineTerminator c) (snd (hd runs))"
  shows "textTitle (extractTextFromSlideXML (slideMarkup runs rest))
           = (if runs = [] \<or> snd (hd runs) = [] then ''Slide Title'' else snd (hd runs))
       \<and> textContent (extractTextFromSlideXML (slideMarkup runs rest))
           = filter (\<lambda>t. trim t \<noteq> [] \<and> t \<noteq> textTitle (extractTextFromSlideXML (slideMarkup runs rest)))
               (map snd runs)"
proof -
  have "map (\<lambda>m. replaceFirst ''</a:t>'' [] (replaceFirst ''<a:t>'' [] m)) (map (\<lambda>(before, t). textRun t) runs)
          = map snd runs"
    using assms(1) by (induction runs) (auto simp: strip_run)
  then have m: "map (\<lambda>m. replaceFirst ''</a:t>'' [] (replaceFirst ''<a:t>'' [] m))
                  (textMatches (slideMarkup runs rest)) = map snd runs"
    using textMatches_slideMarkup [OF assms(1,2)] by simp
  show ?thesis
    using extract_general [of "slideMarkup runs rest"] matchTitle_slideMarkup [OF assms]
    by (auto simp: m)
qed

theorem extractText_markup_witness:
  "list_all (\<lambda>(before, t). noTextRun before \<and> CHR ''<'' \<notin> set t)
     [(''<a:p><a:r>'', ''Agenda''), (''</a:r><a:r>'', '' ''), (''</a:r></a:p><a:p><a:r><a:rPr b=1/>'', ''Budget''),
      (''</a:r><a:r>'', ''Agenda'')]
   \<and> noTextRun ''</a:r></a:p>''
   \<and> list_all (\<lambda>c. \<not> isLineTerminator c) ''Agenda''
   \<and> textTitle (extractTextFromSlideXML (slideMarkup
        [(''<a:p><a:r>'', ''Agenda''), (''</a:r><a:r>'', '' ''), (''</a:r></a:p><a:p><a:r><a:rPr b=1/>'', ''Budget''),
         (''</a:r><a:r>'', ''Agenda'')] ''</a:r></a:p>'')) = ''Agenda''
   \<and> textContent (extractTextFromSlideXML (slideMarkup
        [(''<a:p><a:r>'', ''Agenda''), (''</a:r><a:r>'', '' ''), (''</a:r></a:p><a:p><a:r><a:rPr b=1/>'', ''Budget''),
         (''</a:r><a:r>'', ''Agenda'')] ''</a:r></a:p>'')) = [''Budget'']"
proof -
  let ?runs = "[(''<a:p><a:r>'', ''Agenda''), (''</a:r><a:r>'', '' ''),
                (''</a:r></a:p><a:p><a:r><a:rPr b=1/>'', ''Budget''), (''</a:r><a:r>'', ''Agenda'')]"
  have h1: "list_all (\<lambda>(before, t). noTextRun before \<and> CHR ''<'' \<notin> set t) ?runs"
    by (simp add: startsWith_def)
  have h2: "noTextRun ''</a:r></a:p>''" by (simp add: startsWith_def)
  have h3: "list_all (\<lambda>c. \<not> isLineTerminator c) ''Agenda''" by (simp add: isLineTerminator_def)
  then have h3': "?runs \<noteq> [] \<longrightarrow> list_all (\<lambda>c. \<not> isLineTerminator c) (snd (hd ?runs))" by simp
  have t: "trim '' '' = []" "trim ''Budget'' \<noteq> []" "trim ''Agenda'' \<noteq> []"
    by (simp_all add: trim_def isWhiteSpace_def)
  from extractText_markup [OF h1 h2 h3'] t
  have "textTitle (extractTextFromSlideXML (slideMarkup ?runs ''</a:r></a:p>'')) = ''Agenda''
      \<and> textContent (extractTextFromSlideXML (slideMarkup ?runs ''</a:r></a:p>'')) = [''Budget'']"
    by simp
  with h1 h2 h3 show ?thesis by (intro conjI) simp_all
qed

text \<open>
  The claim as stated fails where a later run repeats the title (it is dropped although it
  is not the title run), and where the first run holds a line break (the title is then
  taken from the second run, and the first run is kept as content).
\<close>

theorem extractText_counterexample:
  "extractTextFromSlideXML (concat (map textRun [''Agenda'', ''Budget'', ''Agenda'']))
     = \<lparr>textTitle = ''Agenda'', textContent = [''Budget'']\<rparr>
   \<and> claimedExtractText [''Agenda'', ''Budget'', ''Agenda'']
     = \<lparr>textTitle = ''Agenda'', textContent = [''Budget'', ''Agenda'']\<rparr>
   \<and> extractTextFromSlideXML (concat (map textRun [''Agenda'' @ newline @ ''2024'', ''Intro'']))
     = \<lparr>textTitle = ''Intro'', textContent = [''Agenda'' @ newline @ ''2024'']\<rparr>
   \<and> claimedExtractText [''Agenda'' @ newline @ ''2024'', ''Intro'']
     = \<lparr>textTitle = ''Agenda'' @ newline @ ''2024'', textContent = [''Intro'']\<rparr>"
  by code_simp

lemma getAnnotations_lookup:
  "foldl (\<lambda>result annotation. result(a_slide_id annotation \<mapsto> a_tags annotation)) m rows sid
     = (case find_first (\<lambda>a. a_slide_id a = sid) (rev rows) of None \<Rightarrow> m sid | Some a \<Rightarrow> Some (a_tags a))"
  by (induction rows arbitrary: m) (auto simp: find_first_def split: list.splits)

section \<open>Annotations: replace, not merge\<close>

text \<open>
  Claim C6. For a slide of the store, saving a new annotation set deletes the slide's
  existing record and inserts the new set: afterwards \<open>getAnnotations\<close> for the slide's
  presentation gives exactly the new set under the slide's key (no key at all when the new
  set is empty, since then nothing is inserted), the table holds at most one record of the
  slide, carrying the new set, and the records of the other slides are untouched. The
  statements on the primary store are assumed to execute (\<open>dbScript w = []\<close>).
\<close>

theorem saveAnnotations_replaces:
  assumes "dbScript w = []"
      and "find_first (\<lambda>s. s_slide_id s = slideId) (slidesT w) = Some sl"
  shows "\<exists>w' result.
           saveAnnotations slideId tags w = (Inr (), w')
         \<and> getAnnotations (s_presentation_id sl) w' = (Inr result, w')
         \<and> result slideId = (if tags = [] then None else Some tags)
         \<and> map a_tags (filter (\<lambda>a. a_slide_id a = slideId) (annotationsT w')) = (if tags = [] then [] else [tags])
         \<and> filter (\<lambda>a. a_slide_id a \<noteq> slideId) (annotationsT w')
             = filter (\<lambda>a. a_slide_id a \<noteq> slideId) (annotationsT w)"
  using assms
  by (cases "tags = []")
     (auto simp: saveAnnotations_def getAnnotations_def getSlide_def io_bind_def io_return_def io_try_def
        sqlite_insertAnnotations_def Let_def dbStatement_healthy getAnnotations_lookup find_first_def
        filter_empty_conv split: list.splits option.splits)

theorem saveAnnotations_replaces_witness:
  "dbScript annotatedWorld = []
   \<and> find_first (\<lambda>s. s_slide_id s = ''s2'') (slidesT annotatedWorld)
       = Some \<lparr>s_presentation_id = ''p1'', s_slide_id = ''s2'', s_slide_number = 2, s_image = ''BBBB''\<rparr>
   \<and> map a_tags (filter (\<lambda>a. a_slide_id a = ''s2'') (annotationsT annotatedWorld))
       = [[\<lparr>tag_key = ''topic'', tag_value = ''old''\<rparr>, \<lparr>tag_key = ''owner'', tag_value = ''ann''\<rparr>]]
   \<and> (\<exists>w' result.
         saveAnnotations ''s2'' [\<lparr>tag_key = ''topic'', tag_value = ''intro''\<rparr>] annotatedWorld = (Inr (), w')
       \<and> getAnnotations ''p1'' w' = (Inr result, w')
       \<and> result ''s2'' = Some [\<lparr>tag_key = ''topic'', tag_value = ''intro''\<rparr>]
       \<and> map a_tags (filter (\<lambda>a. a_slide_id a = ''s2'') (annotationsT w')) = [[\<lparr>tag_key = ''topic'', tag_value = ''intro''\<rparr>]])"
proof -
  have h1: "dbScript annotatedWorld = []"
    by (simp add: annotatedWorld_def)
  have h2: "find_first (\<lambda>s. s_slide_id s = ''s2'') (slidesT annotatedWorld)
       = Some \<lparr>s_presentation_id = ''p1'', s_slide_id = ''s2'', s_slide_number = 2, s_image = ''BBBB''\<rparr>"
    by (simp add: annotatedWorld_def find_first_def)
  have h3: "map a_tags (filter (\<lambda>a. a_slide_id a = ''s2'') (annotationsT annotatedWorld))
       = [[\<lparr>tag_key = ''topic'', tag_value = ''old''\<rparr>, \<lparr>tag_key = ''owner'', tag_value = ''ann''\<rparr>]]"
    by (simp add: annotatedWorld_def)
  from saveAnnotations_replaces [OF h1 h2, of "[\<lparr>tag_key = ''topic'', tag_value = ''intro''\<rparr>]"]
  have "\<exists>w' result.
         saveAnnotations ''s2'' [\<lparr>tag_key = ''topic'', tag_value = ''intro''\<rparr>] annotatedWorld = (Inr (), w')
       \<and> getAnnotations ''p1'' w' = (Inr result, w')
       \<and> result ''s2'' = Some [\<lparr>tag_key = ''topic'', tag_value = ''intro''\<rparr>]
       \<and> map a_tags (filter (\<lambda>a. a_slide_id a = ''s2'') (annotationsT w')) = [[\<lparr>tag_key = ''topic'', tag_value = ''intro''\<rparr>]]"
    by auto
  with h1 h2 h3 show ?thesis by (intro conjI)
qed

text \<open>
  Claim C10. Saving an empty annotation list runs the delete statement and nothing else:
  when that statement executes, the call succeeds, the slide's records are gone and every
  other table is as before, whether or not a slide with this identifier exists; and in no
  world does the call fail with "Slide not found", the check being made only for a
  non-empty list.
\<close>

theorem saveAnnotations_empty_list:
  "(dbScript w = [] \<longrightarrow>
      saveAnnotations slideId [] w
        = (Inr (), w\<lparr>annotationsT := filter (\<lambda>a. a_slide_id a \<noteq> slideId) (annotationsT w)\<rparr>))
   \<and> fst (saveAnnotations slideId [] w) \<noteq> Inl (Error ''Slide not found'')"
  by (auto simp: saveAnnotations_def io_bind_def io_return_def dbStatement_def
           split: list.splits prod.splits sum.splits)

theorem saveAnnotations_empty_list_witness:
  "dbScript annotatedWorld = []
   \<and> find_first (\<lambda>s. s_slide_id s = ''no-such-slide'') (slidesT annotatedWorld) = None
   \<and> saveAnnotations ''no-such-slide'' [] annotatedWorld = (Inr (), annotatedWorld)
   \<and> saveAnnotations ''s2'' [] annotatedWorld = (Inr (), annotatedWorld\<lparr>annotationsT := []\<rparr>)"
  using saveAnnotations_empty_list [of annotatedWorld "''no-such-slide''"]
        saveAnnotations_empty_list [of annotatedWorld "''s2''"]
  by (simp add: annotatedWorld_def find_first_def)

end
